theory Spec2Isabelle
  imports Main "HOL-Library.AList"
begin

unbundle bit_operations_syntax

section \<open>Interval domain (class IntervalValue)\<close>

text \<open>
  An \<^verbatim>\<open>IntervalValue\<close> object holds the two fields \<^verbatim>\<open>_lb\<close> and \<^verbatim>\<open>_ub\<close>; each is a
  Python integer (unbounded, hence \<^typ>\<open>int\<close>) or \<^verbatim>\<open>None\<close>. \<^verbatim>\<open>None\<close> in \<^verbatim>\<open>_lb\<close> stands
  for minus infinity, in \<^verbatim>\<open>_ub\<close> for plus infinity.
\<close>

record IntervalValue =
  lb :: "int option"
  ub :: "int option"

definition IntervalValue_top :: IntervalValue where
  "IntervalValue_top = \<lparr>lb = None, ub = None\<rparr>"

definition IntervalValue_bottom :: IntervalValue where
  "IntervalValue_bottom = \<lparr>lb = Some 1, ub = Some 0\<rparr>"

definition is_top :: "IntervalValue \<Rightarrow> bool" where
  "is_top self = (lb self = None \<and> ub self = None)"

definition is_bottom :: "IntervalValue \<Rightarrow> bool" where
  "is_bottom self =
     (case lb self of
        None \<Rightarrow> False
      | Some l \<Rightarrow> (case ub self of None \<Rightarrow> False | Some u \<Rightarrow> l > u))"

definition set_to_top :: "IntervalValue \<Rightarrow> IntervalValue" where
  "set_to_top self = self\<lparr>lb := None, ub := None\<rparr>"

definition set_to_bottom :: "IntervalValue \<Rightarrow> IntervalValue" where
  "set_to_bottom self = self\<lparr>lb := Some 1, ub := Some 0\<rparr>"

definition contain :: "IntervalValue \<Rightarrow> IntervalValue \<Rightarrow> bool" where
  "contain self other =
     (if is_bottom self then False
      else if is_bottom other then True
      else
        (let lb_ok = (case lb self of
                        None \<Rightarrow> True
                      | Some l \<Rightarrow> (case lb other of None \<Rightarrow> False | Some l' \<Rightarrow> l \<le> l'));
             ub_ok = (case ub self of
                        None \<Rightarrow> True
                      | Some u \<Rightarrow> (case ub other of None \<Rightarrow> False | Some u' \<Rightarrow> u \<ge> u'))
         in lb_ok \<and> ub_ok))"

definition IntervalValue_join :: "IntervalValue \<Rightarrow> IntervalValue \<Rightarrow> IntervalValue" where
  "IntervalValue_join self other =
     (if is_bottom self then \<lparr>lb = lb other, ub = ub other\<rparr>
      else if is_bottom other then \<lparr>lb = lb self, ub = ub self\<rparr>
      else
        \<lparr>lb = (case lb self of
                 None \<Rightarrow> None
               | Some l \<Rightarrow> (case lb other of None \<Rightarrow> None | Some l' \<Rightarrow> Some (min l l'))),
         ub = (case ub self of
                 None \<Rightarrow> None
               | Some u \<Rightarrow> (case ub other of None \<Rightarrow> None | Some u' \<Rightarrow> Some (max u u')))\<rparr>)"

definition IntervalValue_meet :: "IntervalValue \<Rightarrow> IntervalValue \<Rightarrow> IntervalValue" where
  "IntervalValue_meet self other =
     (if is_bottom self \<or> is_bottom other then IntervalValue_bottom
      else
        (let new_lb = (case lb self of
                         None \<Rightarrow> lb other
                       | Some l \<Rightarrow> (case lb other of None \<Rightarrow> Some l | Some l' \<Rightarrow> Some (max l l')));
             new_ub = (case ub self of
                         None \<Rightarrow> ub other
                       | Some u \<Rightarrow> (case ub other of None \<Rightarrow> Some u | Some u' \<Rightarrow> Some (min u u')))
         in if new_lb \<noteq> None \<and> new_ub \<noteq> None \<and> the new_lb > the new_ub
            then IntervalValue_bottom
            else \<lparr>lb = new_lb, ub = new_ub\<rparr>))"

definition IntervalValue_widening :: "IntervalValue \<Rightarrow> IntervalValue \<Rightarrow> IntervalValue" where
  "IntervalValue_widening self other =
     (if is_bottom self then \<lparr>lb = lb other, ub = ub other\<rparr>
      else if is_bottom other then \<lparr>lb = lb self, ub = ub self\<rparr>
      else
        \<lparr>lb = (case lb self of
                 None \<Rightarrow> None
               | Some l \<Rightarrow> (case lb other of
                             None \<Rightarrow> None
                           | Some l' \<Rightarrow> if l' < l then None else Some l)),
         ub = (case ub self of
                 None \<Rightarrow> None
               | Some u \<Rightarrow> (case ub other of
                             None \<Rightarrow> None
                           | Some u' \<Rightarrow> if u' > u then None else Some u))\<rparr>)"

definition IntervalValue_narrowing :: "IntervalValue \<Rightarrow> IntervalValue \<Rightarrow> IntervalValue" where
  "IntervalValue_narrowing self other =
     (if is_bottom self \<or> is_bottom other then IntervalValue_bottom
      else
        \<lparr>lb = (if lb self = None \<and> lb other \<noteq> None then lb other else lb self),
         ub = (if ub self = None \<and> ub other \<noteq> None then ub other else ub self)\<rparr>)"

definition IntervalValue_equals :: "IntervalValue \<Rightarrow> IntervalValue \<Rightarrow> bool" where
  "IntervalValue_equals self other =
     (if is_bottom self \<and> is_bottom other then True
      else if is_bottom self \<or> is_bottom other then False
      else (lb self = lb other \<and> ub self = ub other))"

section \<open>Address-set domain (class AddressValue)\<close>

text \<open>
  The two class constants and the three static methods of the virtual-address encoding.
  Python's \<^verbatim>\<open>|\<close>, \<^verbatim>\<open>&\<close> and \<^verbatim>\<open>~\<close> act on unbounded two's-complement integers, as
  \<open>OR\<close>, \<open>AND\<close> and \<open>NOT\<close> do on \<^typ>\<open>int\<close>.
\<close>

definition ADDR_HIGH_BYTE :: int where
  "ADDR_HIGH_BYTE = 0x7F000000"

definition ADDR_MASK :: int where
  "ADDR_MASK = 0xFF000000"

definition getVirtualMemAddress :: "int \<Rightarrow> int" where
  "getVirtualMemAddress idx = ADDR_HIGH_BYTE OR idx"

definition isVirtualMemAddress :: "int \<Rightarrow> bool" where
  "isVirtualMemAddress val = ((val AND ADDR_MASK) = ADDR_HIGH_BYTE)"

definition getInternalID :: "int \<Rightarrow> int" where
  "getInternalID idx = (if isVirtualMemAddress idx then idx AND NOT ADDR_MASK else idx)"

record AddressValue =
  addrs :: "int set"

text \<open>The constructor: \<^verbatim>\<open>addresses if addresses is not None else set()\<close>.\<close>

definition AddressValue_init :: "int set option \<Rightarrow> AddressValue" where
  "AddressValue_init addresses = \<lparr>addrs = (case addresses of None \<Rightarrow> {} | Some s \<Rightarrow> s)\<rparr>"

definition get_addrs :: "AddressValue \<Rightarrow> int set" where
  "get_addrs self = addrs self"

definition AddressValue_join :: "AddressValue \<Rightarrow> AddressValue \<Rightarrow> AddressValue" where
  "AddressValue_join self other = AddressValue_init (Some (addrs self \<union> addrs other))"

definition AddressValue_meet :: "AddressValue \<Rightarrow> AddressValue \<Rightarrow> AddressValue" where
  "AddressValue_meet self other = AddressValue_init (Some (addrs self \<inter> addrs other))"

definition AddressValue_equals :: "AddressValue \<Rightarrow> AddressValue \<Rightarrow> bool" where
  "AddressValue_equals self other = (addrs self = addrs other)"

section \<open>Abstract value (class AbstractValue)\<close>

text \<open>
  An \<^verbatim>\<open>AbstractValue\<close> built by \<^verbatim>\<open>createInterval\<close> or \<^verbatim>\<open>createAddress\<close> carries its tag
  \<^verbatim>\<open>_type\<close> and the payload of that tag. The exceptions the code can raise are values of
  \<open>error\<close>: \<^verbatim>\<open>ValueError\<close> (the spec's TypeMismatch), a failed \<^verbatim>\<open>assert\<close> (the spec's
  InvalidAddress, for \<^verbatim>\<open>store\<close> and \<^verbatim>\<open>load\<close>) and \<^verbatim>\<open>KeyError\<close> of a dictionary access.
  An \<^verbatim>\<open>assert\<close> is taken as the interpreter runs it by default: a false condition raises
  \<^verbatim>\<open>AssertionError\<close>.
\<close>

datatype AbstractValue = Interval IntervalValue | Address AddressValue

datatype error = ValueError | AssertionError | KeyError

definition createInterval :: "int option \<Rightarrow> int option \<Rightarrow> AbstractValue" where
  "createInterval l u = Interval \<lparr>lb = l, ub = u\<rparr>"

definition createAddress :: "int set option \<Rightarrow> AbstractValue" where
  "createAddress addresses = Address (AddressValue_init addresses)"

fun isInterval :: "AbstractValue \<Rightarrow> bool" where
  "isInterval (Interval _) = True"
| "isInterval (Address _) = False"

fun isAddr :: "AbstractValue \<Rightarrow> bool" where
  "isAddr (Interval _) = False"
| "isAddr (Address _) = True"

fun getInterval :: "AbstractValue \<Rightarrow> error + IntervalValue" where
  "getInterval (Interval i) = Inr i"
| "getInterval (Address _) = Inl AssertionError"

fun getAddress :: "AbstractValue \<Rightarrow> error + AddressValue" where
  "getAddress (Address a) = Inr a"
| "getAddress (Interval _) = Inl AssertionError"

fun AbstractValue_join :: "AbstractValue \<Rightarrow> AbstractValue \<Rightarrow> error + AbstractValue" where
  "AbstractValue_join (Interval a) (Interval b) = Inr (Interval (IntervalValue_join a b))"
| "AbstractValue_join (Address a) (Address b) = Inr (Address (AddressValue_join a b))"
| "AbstractValue_join _ _ = Inl ValueError"

fun AbstractValue_meet :: "AbstractValue \<Rightarrow> AbstractValue \<Rightarrow> error + AbstractValue" where
  "AbstractValue_meet (Interval a) (Interval b) = Inr (Interval (IntervalValue_meet a b))"
| "AbstractValue_meet (Address a) (Address b) = Inr (Address (AddressValue_meet a b))"
| "AbstractValue_meet _ _ = Inl ValueError"

fun AbstractValue_equals :: "AbstractValue \<Rightarrow> AbstractValue \<Rightarrow> bool" where
  "AbstractValue_equals (Interval a) (Interval b) = IntervalValue_equals a b"
| "AbstractValue_equals (Address a) (Address b) = AddressValue_equals a b"
| "AbstractValue_equals _ _ = False"

section \<open>Abstract state (class AbstractState)\<close>

text \<open>
  The two dictionaries of a state are association lists in insertion order, as a Python
  \<^verbatim>\<open>dict\<close> is: \<open>map_of d k\<close> is the lookup, \<open>AList.update k v d\<close> is \<^verbatim>\<open>d[k] = v\<close>
  (an existing key keeps its place, a new key goes to the end) and \<open>AList.delete k d\<close>
  is \<^verbatim>\<open>del d[k]\<close>. A method that mutates the receiver returns the state it leaves
  behind. A method that raises returns \<open>Inl\<close> of the exception; what it wrote to the
  receiver before it raised is not kept. \<^verbatim>\<open>d[k]\<close> and \<^verbatim>\<open>del d[k]\<close> on a key that \<^verbatim>\<open>d\<close> lacks
  raise \<^verbatim>\<open>KeyError\<close>.
\<close>

type_synonym dict = "(int \<times> AbstractValue) list"

record AbstractState =
  varToAbsVal :: dict
  addrToAbsVal :: dict

definition AbstractState_init :: "dict option \<Rightarrow> dict option \<Rightarrow> AbstractState" where
  "AbstractState_init var_to_val addr_to_val =
     \<lparr>varToAbsVal = (case var_to_val of None \<Rightarrow> [] | Some d \<Rightarrow> d),
      addrToAbsVal = (case addr_to_val of None \<Rightarrow> [] | Some d \<Rightarrow> d)\<rparr>"

text \<open>\<^verbatim>\<open>__getitem__\<close>: \<^verbatim>\<open>self._varToAbsVal.get(var_id, AbstractValue.createInterval())\<close>.\<close>

definition getitem :: "AbstractState \<Rightarrow> int \<Rightarrow> AbstractValue" where
  "getitem self var_id =
     (case map_of (varToAbsVal self) var_id of
        Some v \<Rightarrow> v
      | None \<Rightarrow> createInterval None None)"

definition store :: "AbstractState \<Rightarrow> int \<Rightarrow> AbstractValue \<Rightarrow> error + AbstractState" where
  "store self addr val =
     (if \<not> isVirtualMemAddress addr then Inl AssertionError
      else if getInternalID addr = 0 then Inr self
      else
        (let obj_id = getInternalID addr
         in Inr (self\<lparr>addrToAbsVal := AList.update obj_id val (addrToAbsVal self)\<rparr>)))"

definition load :: "AbstractState \<Rightarrow> int \<Rightarrow> error + AbstractValue" where
  "load self addr =
     (if \<not> isVirtualMemAddress addr then Inl AssertionError
      else
        (let obj_id = getInternalID addr
         in case map_of (addrToAbsVal self) obj_id of
              Some v \<Rightarrow> Inr v
            | None \<Rightarrow> Inr (createInterval None None)))"

subsection \<open>joinWith\<close>

text \<open>
  The branch of \<^verbatim>\<open>joinWith\<close> for a key the receiver lacks: a new \<^verbatim>\<open>AbstractValue\<close> of the
  tag of \<^verbatim>\<open>value\<close> that takes over its interval or its address set.
\<close>

definition joinWith_copy :: "AbstractValue \<Rightarrow> error + AbstractValue" where
  "joinWith_copy v =
     (if isInterval v
      then (case getInterval v of Inl e \<Rightarrow> Inl e | Inr i \<Rightarrow> Inr (Interval i))
      else (case getAddress v of Inl e \<Rightarrow> Inl e | Inr a \<Rightarrow> Inr (Address a)))"

text \<open>The loop \<^verbatim>\<open>for key, value in other.items()\<close> over one dictionary.\<close>

fun joinWith_loop :: "dict \<Rightarrow> dict \<Rightarrow> error + dict" where
  "joinWith_loop self [] = Inr self"
| "joinWith_loop self ((key, v) # items) =
     (case map_of self key of
        Some u \<Rightarrow>
          (case AbstractValue_join u v of
             Inl e \<Rightarrow> Inl e
           | Inr new_val \<Rightarrow> joinWith_loop (AList.update key new_val self) items)
      | None \<Rightarrow>
          (case joinWith_copy v of
             Inl e \<Rightarrow> Inl e
           | Inr c \<Rightarrow> joinWith_loop (AList.update key c self) items))"

definition joinWith :: "AbstractState \<Rightarrow> AbstractState \<Rightarrow> error + AbstractState" where
  "joinWith self other =
     (case joinWith_loop (varToAbsVal self) (varToAbsVal other) of
        Inl e \<Rightarrow> Inl e
      | Inr vs \<Rightarrow>
          (case joinWith_loop (addrToAbsVal self) (addrToAbsVal other) of
             Inl e \<Rightarrow> Inl e
           | Inr ads \<Rightarrow> Inr \<lparr>varToAbsVal = vs, addrToAbsVal = ads\<rparr>))"

subsection \<open>meetWith\<close>

text \<open>
  The loop \<^verbatim>\<open>for key in self._varToAbsVal\<close> over the keys the receiver had on entry (the
  body assigns to existing keys only, so the keys do not change under it), threading the
  dictionary and the list \<^verbatim>\<open>keys_to_remove\<close>. The \<^verbatim>\<open>if\<close>/\<^verbatim>\<open>elif\<close> on the two tags has no
  \<^verbatim>\<open>else\<close>: on differing tags the body does nothing.
\<close>

fun meetWith_loop :: "dict \<Rightarrow> int list \<Rightarrow> dict \<Rightarrow> int list \<Rightarrow> error + dict \<times> int list" where
  "meetWith_loop other [] self keys_to_remove = Inr (self, keys_to_remove)"
| "meetWith_loop other (key # keys) self keys_to_remove =
     (case map_of other key of
        Some ov \<Rightarrow>
          (case map_of self key of
             None \<Rightarrow> Inl KeyError
           | Some sv \<Rightarrow>
               if isInterval sv \<and> isInterval ov then
                 (case getInterval sv of
                    Inl e \<Rightarrow> Inl e
                  | Inr si \<Rightarrow>
                      (case getInterval ov of
                         Inl e \<Rightarrow> Inl e
                       | Inr oi \<Rightarrow>
                           (let new_interval = IntervalValue_meet si oi
                            in meetWith_loop other keys
                                 (AList.update key (Interval new_interval) self)
                                 (if is_bottom new_interval then keys_to_remove @ [key]
                                  else keys_to_remove))))
               else if isAddr sv \<and> isAddr ov then
                 (case getAddress sv of
                    Inl e \<Rightarrow> Inl e
                  | Inr sa \<Rightarrow>
                      (case getAddress ov of
                         Inl e \<Rightarrow> Inl e
                       | Inr oa \<Rightarrow>
                           (let new_address = AddressValue_meet sa oa
                            in meetWith_loop other keys
                                 (AList.update key (Address new_address) self)
                                 (if get_addrs new_address = {} then keys_to_remove @ [key]
                                  else keys_to_remove))))
               else meetWith_loop other keys self keys_to_remove)
      | None \<Rightarrow> meetWith_loop other keys self (keys_to_remove @ [key]))"

text \<open>The loop \<^verbatim>\<open>for key in keys_to_remove: del d[key]\<close>.\<close>

fun del_keys :: "int list \<Rightarrow> dict \<Rightarrow> error + dict" where
  "del_keys [] d = Inr d"
| "del_keys (key # keys) d =
     (case map_of d key of
        None \<Rightarrow> Inl KeyError
      | Some _ \<Rightarrow> del_keys keys (AList.delete key d))"

definition meetWith_dict :: "dict \<Rightarrow> dict \<Rightarrow> error + dict" where
  "meetWith_dict self other =
     (case meetWith_loop other (map fst self) self [] of
        Inl e \<Rightarrow> Inl e
      | Inr (d, keys_to_remove) \<Rightarrow> del_keys keys_to_remove d)"

definition meetWith :: "AbstractState \<Rightarrow> AbstractState \<Rightarrow> error + AbstractState" where
  "meetWith self other =
     (case meetWith_dict (varToAbsVal self) (varToAbsVal other) of
        Inl e \<Rightarrow> Inl e
      | Inr vs \<Rightarrow>
          (case meetWith_dict (addrToAbsVal self) (addrToAbsVal other) of
             Inl e \<Rightarrow> Inl e
           | Inr ads \<Rightarrow> Inr \<lparr>varToAbsVal = vs, addrToAbsVal = ads\<rparr>))"

subsection \<open>widening and narrowing of states\<close>

text \<open>
  \<^verbatim>\<open>set(self.keys()).union(other.keys())\<close>: every key of either dictionary, once. Python
  fixes no order for the iteration over a set; the list below takes the receiver's keys
  first. The loops write only \<^verbatim>\<open>result[key]\<close> for the key at hand, so the order decides
  nothing but the insertion order of the result, and the properties below are stated on
  lookups.
\<close>

definition all_keys :: "dict \<Rightarrow> dict \<Rightarrow> int list" where
  "all_keys self other = remdups (map fst self @ map fst other)"

fun widening_loop :: "dict \<Rightarrow> dict \<Rightarrow> int list \<Rightarrow> dict \<Rightarrow> error + dict" where
  "widening_loop self other [] result = Inr result"
| "widening_loop self other (key # keys) result =
     (case map_of self key of
        Some sv \<Rightarrow>
          (case map_of other key of
             Some ov \<Rightarrow>
               if isInterval sv \<and> isInterval ov then
                 (case getInterval sv of
                    Inl e \<Rightarrow> Inl e
                  | Inr si \<Rightarrow>
                      (case getInterval ov of
                         Inl e \<Rightarrow> Inl e
                       | Inr oi \<Rightarrow>
                           widening_loop self other keys
                             (AList.update key (Interval (IntervalValue_widening si oi)) result)))
               else if isAddr sv \<and> isAddr ov then
                 (case getAddress sv of
                    Inl e \<Rightarrow> Inl e
                  | Inr sa \<Rightarrow>
                      (case getAddress ov of
                         Inl e \<Rightarrow> Inl e
                       | Inr oa \<Rightarrow>
                           widening_loop self other keys
                             (AList.update key (Address (AddressValue_join sa oa)) result)))
               else widening_loop self other keys result
           | None \<Rightarrow> widening_loop self other keys (AList.update key sv result))
      | None \<Rightarrow>
          (case map_of other key of
             Some ov \<Rightarrow> widening_loop self other keys (AList.update key ov result)
           | None \<Rightarrow> Inl KeyError))"

definition AbstractState_widening :: "AbstractState \<Rightarrow> AbstractState \<Rightarrow> error + AbstractState" where
  "AbstractState_widening self other =
     (case widening_loop (varToAbsVal self) (varToAbsVal other)
             (all_keys (varToAbsVal self) (varToAbsVal other)) [] of
        Inl e \<Rightarrow> Inl e
      | Inr vs \<Rightarrow>
          (case widening_loop (addrToAbsVal self) (addrToAbsVal other)
                  (all_keys (addrToAbsVal self) (addrToAbsVal other)) [] of
             Inl e \<Rightarrow> Inl e
           | Inr ads \<Rightarrow> Inr \<lparr>varToAbsVal = vs, addrToAbsVal = ads\<rparr>))"

fun narrowing_loop :: "dict \<Rightarrow> dict \<Rightarrow> int list \<Rightarrow> dict \<Rightarrow> error + dict" where
  "narrowing_loop self other [] result = Inr result"
| "narrowing_loop self other (key # keys) result =
     (case map_of self key of
        Some sv \<Rightarrow>
          (case map_of other key of
             Some ov \<Rightarrow>
               if isInterval sv \<and> isInterval ov then
                 (case getInterval sv of
                    Inl e \<Rightarrow> Inl e
                  | Inr si \<Rightarrow>
                      (case getInterval ov of
                         Inl e \<Rightarrow> Inl e
                       | Inr oi \<Rightarrow>
                           narrowing_loop self other keys
                             (AList.update key (Interval (IntervalValue_narrowing si oi)) result)))
               else if isAddr sv \<and> isAddr ov then
                 (case getAddress sv of
                    Inl e \<Rightarrow> Inl e
                  | Inr sa \<Rightarrow>
                      (case getAddress ov of
                         Inl e \<Rightarrow> Inl e
                       | Inr oa \<Rightarrow>
                           narrowing_loop self other keys
                             (AList.update key (Address (AddressValue_meet sa oa)) result)))
               else narrowing_loop self other keys result
           | None \<Rightarrow> narrowing_loop self other keys (AList.update key sv result))
      | None \<Rightarrow>
          (case map_of other key of
             Some ov \<Rightarrow> narrowing_loop self other keys (AList.update key ov result)
           | None \<Rightarrow> Inl KeyError))"

definition AbstractState_narrowing :: "AbstractState \<Rightarrow> AbstractState \<Rightarrow> error + AbstractState" where
  "AbstractState_narrowing self other =
     (case narrowing_loop (varToAbsVal self) (varToAbsVal other)
             (all_keys (varToAbsVal self) (varToAbsVal other)) [] of
        Inl e \<Rightarrow> Inl e
      | Inr vs \<Rightarrow>
          (case narrowing_loop (addrToAbsVal self) (addrToAbsVal other)
                  (all_keys (addrToAbsVal self) (addrToAbsVal other)) [] of
             Inl e \<Rightarrow> Inl e
           | Inr ads \<Rightarrow> Inr \<lparr>varToAbsVal = vs, addrToAbsVal = ads\<rparr>))"

subsection \<open>bottom and top, on objects and references\<close>

text \<open>
  \<^verbatim>\<open>bottom()\<close> and \<^verbatim>\<open>top()\<close> build the new state from \<^verbatim>\<open>dict.copy()\<close> of the two
  dictionaries and then call \<^verbatim>\<open>set_to_bottom()\<close> or \<^verbatim>\<open>set_to_top()\<close>, which assign to the
  fields of an existing \<^verbatim>\<open>IntervalValue\<close> object. What the receiver holds afterwards depends
  on which objects the two states share, so these two methods are modelled on a store of
  objects: a reference is a number, the store gives the object at each reference, and a
  dictionary maps a key to the reference of an \<^verbatim>\<open>AbstractValue\<close> object, which holds its
  tag and the reference of its \<^verbatim>\<open>IntervalValue\<close> or \<^verbatim>\<open>AddressValue\<close> object.
  \<^verbatim>\<open>dict.copy()\<close> makes a new dictionary with the same keys and the same references.
  The store is a total function: every reference leads to some object, and a state
  reaches finitely many of them.
\<close>

type_synonym ref = nat

datatype AbstractValue_obj = IntervalRef ref | AddressRef ref

record heap =
  interval_objs :: "ref \<Rightarrow> IntervalValue"
  address_objs :: "ref \<Rightarrow> AddressValue"
  absval_objs :: "ref \<Rightarrow> AbstractValue_obj"

type_synonym ref_dict = "(int \<times> ref) list"

record AbstractState_obj =
  varToAbsVal_refs :: ref_dict
  addrToAbsVal_refs :: ref_dict

definition dict_copy :: "ref_dict \<Rightarrow> ref_dict" where
  "dict_copy d = map (\<lambda>(k, r). (k, r)) d"

definition set_to_bottom_at :: "ref \<Rightarrow> heap \<Rightarrow> heap" where
  "set_to_bottom_at i h =
     h\<lparr>interval_objs := (interval_objs h)(i := set_to_bottom (interval_objs h i))\<rparr>"

definition set_to_top_at :: "ref \<Rightarrow> heap \<Rightarrow> heap" where
  "set_to_top_at i h =
     h\<lparr>interval_objs := (interval_objs h)(i := set_to_top (interval_objs h i))\<rparr>"

fun bottom_loop :: "ref_dict \<Rightarrow> int list \<Rightarrow> heap \<Rightarrow> error + heap" where
  "bottom_loop d [] h = Inr h"
| "bottom_loop d (item_key # keys) h =
     (case map_of d item_key of
        None \<Rightarrow> Inl KeyError
      | Some r \<Rightarrow>
          (case absval_objs h r of
             IntervalRef i \<Rightarrow> bottom_loop d keys (set_to_bottom_at i h)
           | AddressRef _ \<Rightarrow> bottom_loop d keys h))"

definition AbstractState_bottom ::
  "heap \<Rightarrow> AbstractState_obj \<Rightarrow> error + heap \<times> AbstractState_obj" where
  "AbstractState_bottom h self =
     (let inv = \<lparr>varToAbsVal_refs = dict_copy (varToAbsVal_refs self),
                 addrToAbsVal_refs = dict_copy (addrToAbsVal_refs self)\<rparr>
      in case bottom_loop (varToAbsVal_refs inv) (map fst (varToAbsVal_refs inv)) h of
           Inl e \<Rightarrow> Inl e
         | Inr h' \<Rightarrow> Inr (h', inv))"

fun top_loop :: "ref_dict \<Rightarrow> int list \<Rightarrow> heap \<Rightarrow> error + heap" where
  "top_loop d [] h = Inr h"
| "top_loop d (item_key # keys) h =
     (case map_of d item_key of
        None \<Rightarrow> Inl KeyError
      | Some r \<Rightarrow>
          (case absval_objs h r of
             IntervalRef i \<Rightarrow> top_loop d keys (set_to_top_at i h)
           | AddressRef _ \<Rightarrow> top_loop d keys h))"

definition AbstractState_top ::
  "heap \<Rightarrow> AbstractState_obj \<Rightarrow> error + heap \<times> AbstractState_obj" where
  "AbstractState_top h self =
     (let inv = \<lparr>varToAbsVal_refs = dict_copy (varToAbsVal_refs self),
                 addrToAbsVal_refs = dict_copy (addrToAbsVal_refs self)\<rparr>
      in case top_loop (varToAbsVal_refs inv) (map fst (varToAbsVal_refs inv)) h of
           Inl e \<Rightarrow> Inl e
         | Inr h' \<Rightarrow> Inr (h', inv))"

text \<open>
  What a state is worth in a store: each reference replaced by the value of the object
  it leads to. This is the \<open>AbstractState\<close> of the sections above.
\<close>

definition read_value :: "heap \<Rightarrow> ref \<Rightarrow> AbstractValue" where
  "read_value h r =
     (case absval_objs h r of
        IntervalRef i \<Rightarrow> Interval (interval_objs h i)
      | AddressRef a \<Rightarrow> Address (address_objs h a))"

definition read_dict :: "heap \<Rightarrow> ref_dict \<Rightarrow> dict" where
  "read_dict h d = map (\<lambda>(k, r). (k, read_value h r)) d"

definition read_state :: "heap \<Rightarrow> AbstractState_obj \<Rightarrow> AbstractState" where
  "read_state h s =
     \<lparr>varToAbsVal = read_dict h (varToAbsVal_refs s),
      addrToAbsVal = read_dict h (addrToAbsVal_refs s)\<rparr>"

subsection \<open>Retrieval, on objects and references\<close>

text \<open>
  \<^verbatim>\<open>__getitem__\<close> and \<^verbatim>\<open>load\<close> return an object: the one the dictionary holds, or one that
  \<^verbatim>\<open>AbstractValue.createInterval()\<close> builds. To tell a new object from one that exists, the
  store of objects comes with the two counters of an allocator: \<open>next_absval\<close> and
  \<open>next_interval\<close> are the first references at which no \<^verbatim>\<open>AbstractValue\<close> and no
  \<^verbatim>\<open>IntervalValue\<close> object has been created yet; the objects created so far are at the
  references below them.

  \<^verbatim>\<open>createInterval(lb, ub)\<close> creates an \<^verbatim>\<open>AbstractValue\<close> object, then an \<^verbatim>\<open>IntervalValue\<close>
  object, and ties the second to the first.
\<close>

record obj_store =
  objs :: heap
  next_absval :: ref
  next_interval :: ref

definition createInterval_obj :: "int option \<Rightarrow> int option \<Rightarrow> obj_store \<Rightarrow> ref \<times> obj_store" where
  "createInterval_obj l u st =
     (let r = next_absval st;
          i = next_interval st;
          h = objs st
      in (r,
          \<lparr>objs = h\<lparr>interval_objs := (interval_objs h)(i := \<lparr>lb = l, ub = u\<rparr>),
                     absval_objs := (absval_objs h)(r := IntervalRef i)\<rparr>,
           next_absval = Suc r,
           next_interval = Suc i\<rparr>))"

text \<open>
  \<^verbatim>\<open>self._varToAbsVal.get(var_id, AbstractValue.createInterval())\<close>: Python evaluates the
  argument \<^verbatim>\<open>AbstractValue.createInterval()\<close> before it calls \<^verbatim>\<open>get\<close>, so the default object
  is created at every call, and returned when the key is absent.
\<close>

definition getitem_obj :: "obj_store \<Rightarrow> AbstractState_obj \<Rightarrow> int \<Rightarrow> ref \<times> obj_store" where
  "getitem_obj st self var_id =
     (case createInterval_obj None None st of
        (default_obj, st') \<Rightarrow>
          (case map_of (varToAbsVal_refs self) var_id of
             Some r \<Rightarrow> (r, st')
           | None \<Rightarrow> (default_obj, st')))"

text \<open>\<^verbatim>\<open>load\<close> calls \<^verbatim>\<open>createInterval()\<close> only on the path where the object id is absent.\<close>

definition load_obj :: "obj_store \<Rightarrow> AbstractState_obj \<Rightarrow> int \<Rightarrow> error + ref \<times> obj_store" where
  "load_obj st self addr =
     (if \<not> isVirtualMemAddress addr then Inl AssertionError
      else
        (let obj_id = getInternalID addr
         in case map_of (addrToAbsVal_refs self) obj_id of
              Some r \<Rightarrow> Inr (r, st)
            | None \<Rightarrow> Inr (createInterval_obj None None st)))"

section \<open>Repeated widening\<close>

text \<open>
  The values a driver sees when it widens an interval \<open>a\<close> with \<open>x\<^sub>1\<close>, the result with
  \<open>x\<^sub>2\<close>, and so on; and the number of places in a list where an element differs from
  the one before it.
\<close>

fun widening_chain :: "IntervalValue \<Rightarrow> IntervalValue list \<Rightarrow> IntervalValue list" where
  "widening_chain a [] = [a]"
| "widening_chain a (x # xs) = a # widening_chain (IntervalValue_widening a x) xs"

fun changes :: "'a list \<Rightarrow> nat" where
  "changes (x # y # zs) = (if x = y then 0 else 1) + changes (y # zs)"
| "changes _ = 0"

text \<open>The number of sides of an interval that are still finite: what widening uses up.\<close>

definition finite_sides :: "IntervalValue \<Rightarrow> nat" where
  "finite_sides a = (if lb a = None then 0 else 1) + (if ub a = None then 0 else 1)"

section \<open>Vocabulary of the properties and concrete inputs\<close>

text \<open>
  The bound of \<open>b\<close> lies strictly beyond the finite bound of \<open>a\<close> on that side, in the
  direction in which widening moves it: below the lower bound, above the upper bound. An
  unbounded side of \<open>b\<close> lies beyond every finite bound.
\<close>

definition lower_grown :: "IntervalValue \<Rightarrow> IntervalValue \<Rightarrow> bool" where
  "lower_grown a b =
     (case lb a of
        None \<Rightarrow> False
      | Some l \<Rightarrow> (case lb b of None \<Rightarrow> True | Some l' \<Rightarrow> l' < l))"

definition upper_grown :: "IntervalValue \<Rightarrow> IntervalValue \<Rightarrow> bool" where
  "upper_grown a b =
     (case ub a of
        None \<Rightarrow> False
      | Some u \<Rightarrow> (case ub b of None \<Rightarrow> True | Some u' \<Rightarrow> u < u'))"

text \<open>Two abstract values of differing tags: one an interval, the other an address set.\<close>

definition differing_tags :: "AbstractValue \<Rightarrow> AbstractValue \<Rightarrow> bool" where
  "differing_tags a b = ((isInterval a \<and> isAddr b) \<or> (isAddr a \<and> isInterval b))"

text \<open>
  The states of the merge example: \<open>state1\<close> is \<^verbatim>\<open>{1:[1,5]}\<close>, \<open>state2\<close> is
  \<^verbatim>\<open>{1:[3,10], 2:[15,20]}\<close> and \<open>state12\<close> is \<^verbatim>\<open>{1:[1,10], 2:[15,20]}\<close>; the object store of
  each is empty.
\<close>

definition state1 :: AbstractState where
  "state1 = \<lparr>varToAbsVal = [(1, createInterval (Some 1) (Some 5))], addrToAbsVal = []\<rparr>"

definition state2 :: AbstractState where
  "state2 =
     \<lparr>varToAbsVal = [(1, createInterval (Some 3) (Some 10)),
                     (2, createInterval (Some 15) (Some 20))],
      addrToAbsVal = []\<rparr>"

definition state12 :: AbstractState where
  "state12 =
     \<lparr>varToAbsVal = [(1, createInterval (Some 1) (Some 10)),
                     (2, createInterval (Some 15) (Some 20))],
      addrToAbsVal = []\<rparr>"

text \<open>
  Two states that hold key 1 under differing tags: \<^verbatim>\<open>{1:[1,5]}\<close> and \<^verbatim>\<open>{1:{1,2}}\<close>.
\<close>

definition state_interval :: AbstractState where
  "state_interval = \<lparr>varToAbsVal = [(1, createInterval (Some 1) (Some 5))], addrToAbsVal = []\<rparr>"

definition state_address :: AbstractState where
  "state_address = \<lparr>varToAbsVal = [(1, createAddress (Some {1, 2}))], addrToAbsVal = []\<rparr>"

text \<open>
  A store with three \<^verbatim>\<open>AbstractValue\<close> objects, at references 0, 1 and 2: the interval
  \<^verbatim>\<open>[1,5]\<close>, the address set \<^verbatim>\<open>{3,4}\<close> and the interval \<^verbatim>\<open>[2,3]\<close>. The state \<open>obj_state\<close>
  has the first two in its variable store, under the keys 1 and 2, and the third in its
  object store, under the key 5. \<open>store_bottom\<close> and \<open>store_top\<close> are \<open>store0\<close> with the
  \<^verbatim>\<open>IntervalValue\<close> object at reference 0 overwritten.
\<close>

definition store0 :: heap where
  "store0 =
     \<lparr>interval_objs = (\<lambda>_. IntervalValue_top)
        (0 := \<lparr>lb = Some 1, ub = Some 5\<rparr>, 1 := \<lparr>lb = Some 2, ub = Some 3\<rparr>),
      address_objs = (\<lambda>_. \<lparr>addrs = {}\<rparr>)(0 := \<lparr>addrs = {3, 4}\<rparr>),
      absval_objs = (\<lambda>_. AddressRef 0)(0 := IntervalRef 0, 1 := AddressRef 0, 2 := IntervalRef 1)\<rparr>"

definition obj_state :: AbstractState_obj where
  "obj_state = \<lparr>varToAbsVal_refs = [(1, 0), (2, 1)], addrToAbsVal_refs = [(5, 2)]\<rparr>"

definition store_bottom :: heap where
  "store_bottom = store0\<lparr>interval_objs := (interval_objs store0)(0 := IntervalValue_bottom)\<rparr>"

definition store_top :: heap where
  "store_top = store0\<lparr>interval_objs := (interval_objs store0)(0 := IntervalValue_top)\<rparr>"

text \<open>
  A call has returned a fresh top interval: the reference \<open>r\<close> it returned and the
  reference of the \<^verbatim>\<open>IntervalValue\<close> object behind it were both unused in the store \<open>st\<close>
  before the call and are in use in the store \<open>st'\<close> after it, and the object reads as the
  interval with both sides unbounded.
\<close>

definition fresh_top_interval :: "obj_store \<Rightarrow> ref \<times> obj_store \<Rightarrow> bool" where
  "fresh_top_interval st res =
     (case res of
        (r, st') \<Rightarrow>
          next_absval st \<le> r \<and> r < next_absval st' \<and>
          (case absval_objs (objs st') r of
             IntervalRef i \<Rightarrow>
               next_interval st \<le> i \<and> i < next_interval st' \<and>
               interval_objs (objs st') i = IntervalValue_top
           | AddressRef _ \<Rightarrow> False))"

text \<open>
  The objects a state reaches have been created: every reference in its two
  dictionaries is below \<open>next_absval\<close>, and where the object there is an interval, the
  reference of its \<^verbatim>\<open>IntervalValue\<close> object is below \<open>next_interval\<close>.
\<close>

definition value_allocated :: "obj_store \<Rightarrow> ref \<Rightarrow> bool" where
  "value_allocated st r =
     (r < next_absval st \<and>
      (case absval_objs (objs st) r of
         IntervalRef i \<Rightarrow> i < next_interval st
       | AddressRef _ \<Rightarrow> True))"

definition refs_allocated :: "obj_store \<Rightarrow> AbstractState_obj \<Rightarrow> bool" where
  "refs_allocated st s =
     (list_all (\<lambda>(k, r). value_allocated st r) (varToAbsVal_refs s) \<and>
      list_all (\<lambda>(k, r). value_allocated st r) (addrToAbsVal_refs s))"

text \<open>
  \<open>store0\<close> with its allocator: three \<^verbatim>\<open>AbstractValue\<close> objects and two \<^verbatim>\<open>IntervalValue\<close>
  objects have been created.
\<close>

definition obj_store0 :: obj_store where
  "obj_store0 = \<lparr>objs = store0, next_absval = 3, next_interval = 2\<rparr>"

text \<open>
  A state with \<^verbatim>\<open>{1:[1,5]}\<close> in its variable store and \<^verbatim>\<open>{123:[42,42]}\<close> in its object
  store.
\<close>

definition state_stored :: AbstractState where
  "state_stored =
     \<lparr>varToAbsVal = [(1, createInterval (Some 1) (Some 5))],
      addrToAbsVal = [(123, createInterval (Some 42) (Some 42))]\<rparr>"

section \<open>Properties of the interval domain\<close>

lemma is_bottom_simps:
  "is_bottom \<lparr>lb = None, ub = u\<rparr> = False"
  "is_bottom \<lparr>lb = l, ub = None\<rparr> = False"
  "is_bottom \<lparr>lb = Some x, ub = Some y\<rparr> = (y < x)"
  by (simp_all add: is_bottom_def split: option.splits)

lemma is_bottom_bottom: "is_bottom IntervalValue_bottom"
  by (simp add: IntervalValue_bottom_def is_bottom_simps)

lemma not_is_bottom_top: "\<not> is_bottom IntervalValue_top"
  by (simp add: IntervalValue_top_def is_bottom_simps)

text \<open>
  The rules of \<^verbatim>\<open>contain\<close> on which the code and its tests agree. A receiver that is not
  bottom contains every bottom interval. A bottom receiver contains no interval that is
  not bottom. When neither is bottom, a side is in order if the receiver is unbounded
  there or both bounds are finite and compare numerically (\<open>lb x \<le> lb y\<close> below,
  \<open>ub y \<le> ub x\<close> above); a finite bound of the receiver never covers an unbounded side of
  the other interval.
\<close>

lemma contain_rules:
  "(\<not> is_bottom x \<longrightarrow> is_bottom y \<longrightarrow> contain x y) \<and>
   (is_bottom x \<longrightarrow> \<not> is_bottom y \<longrightarrow> \<not> contain x y) \<and>
   (\<not> is_bottom x \<longrightarrow> \<not> is_bottom y \<longrightarrow>
      contain x y =
        ((lb x = None \<or> (\<exists>l l'. lb x = Some l \<and> lb y = Some l' \<and> l \<le> l')) \<and>
         (ub x = None \<or> (\<exists>u u'. ub x = Some u \<and> ub y = Some u' \<and> u' \<le> u))))"
  by (auto simp: contain_def Let_def split: option.splits)

lemma contain_rules_examples:
  "contain \<lparr>lb = Some 1, ub = Some 10\<rparr> IntervalValue_bottom \<and>
   \<not> contain IntervalValue_bottom \<lparr>lb = Some 1, ub = Some 5\<rparr> \<and>
   contain \<lparr>lb = None, ub = Some 10\<rparr> \<lparr>lb = Some 1, ub = Some 5\<rparr> \<and>
   \<not> contain \<lparr>lb = Some 3, ub = Some 7\<rparr> \<lparr>lb = Some 1, ub = Some 10\<rparr> \<and>
   \<not> contain \<lparr>lb = Some 1, ub = Some 10\<rparr> \<lparr>lb = None, ub = Some 5\<rparr>"
  using contain_rules [of "\<lparr>lb = Some 1, ub = Some 10\<rparr>" IntervalValue_bottom]
    contain_rules [of IntervalValue_bottom "\<lparr>lb = Some 1, ub = Some 5\<rparr>"]
    contain_rules [of "\<lparr>lb = None, ub = Some 10\<rparr>" "\<lparr>lb = Some 1, ub = Some 5\<rparr>"]
    contain_rules [of "\<lparr>lb = Some 3, ub = Some 7\<rparr>" "\<lparr>lb = Some 1, ub = Some 10\<rparr>"]
    contain_rules [of "\<lparr>lb = Some 1, ub = Some 10\<rparr>" "\<lparr>lb = None, ub = Some 5\<rparr>"]
  by (simp add: is_bottom_simps is_bottom_bottom)

text \<open>
  \<^verbatim>\<open>contain\<close> tests \<^verbatim>\<open>self.is_bottom()\<close> before \<^verbatim>\<open>other.is_bottom()\<close>, so an interval
  contains itself exactly when it is not bottom.
\<close>

lemma contain_self: "contain x x = (\<not> is_bottom x)"
  by (auto simp: contain_def Let_def split: option.splits)

text \<open>
  C3 at the input where the code departs from it: the receiver and the argument are both
  \<^verbatim>\<open>IntervalValue.bottom()\<close>. The claim has bottom contained in every interval, bottom
  included. \<^verbatim>\<open>equals\<close> holds the two equal; \<^verbatim>\<open>contain\<close> returns \<^verbatim>\<open>False\<close>.
\<close>

theorem contain_bottom_bottom:
  "is_bottom IntervalValue_bottom \<and>
   IntervalValue_equals IntervalValue_bottom IntervalValue_bottom \<and>
   contain IntervalValue_bottom IntervalValue_bottom = False"
  by (simp add: contain_def IntervalValue_equals_def is_bottom_bottom)

text \<open>
  C8: narrowing of two intervals that are not bottom takes the other interval's bound on
  a side where the receiver is unbounded and the other interval is finite, and the
  receiver's own bound on every other side; so a side where the receiver is finite keeps
  the receiver's bound, whatever the other interval has there. When either interval is
  bottom the result is the bottom interval. Narrowing top with \<^verbatim>\<open>[1,5]\<close> equals \<^verbatim>\<open>[1,5]\<close>.
\<close>

theorem narrowing_conservative:
  "(\<not> is_bottom a \<longrightarrow> \<not> is_bottom b \<longrightarrow>
      (lb a = None \<and> lb b \<noteq> None \<longrightarrow> lb (IntervalValue_narrowing a b) = lb b) \<and>
      (\<not> (lb a = None \<and> lb b \<noteq> None) \<longrightarrow> lb (IntervalValue_narrowing a b) = lb a) \<and>
      (lb a \<noteq> None \<longrightarrow> lb (IntervalValue_narrowing a b) = lb a) \<and>
      (ub a = None \<and> ub b \<noteq> None \<longrightarrow> ub (IntervalValue_narrowing a b) = ub b) \<and>
      (\<not> (ub a = None \<and> ub b \<noteq> None) \<longrightarrow> ub (IntervalValue_narrowing a b) = ub a) \<and>
      (ub a \<noteq> None \<longrightarrow> ub (IntervalValue_narrowing a b) = ub a)) \<and>
   (is_bottom a \<or> is_bottom b \<longrightarrow>
      IntervalValue_narrowing a b = IntervalValue_bottom \<and>
      is_bottom (IntervalValue_narrowing a b)) \<and>
   IntervalValue_equals
     (IntervalValue_narrowing IntervalValue_top \<lparr>lb = Some 1, ub = Some 5\<rparr>)
     \<lparr>lb = Some 1, ub = Some 5\<rparr>"
  by (auto simp: IntervalValue_narrowing_def IntervalValue_equals_def IntervalValue_top_def
      is_bottom_simps is_bottom_bottom)

theorem narrowing_conservative_witness:
  "IntervalValue_narrowing \<lparr>lb = None, ub = Some 7\<rparr> \<lparr>lb = Some 2, ub = Some 5\<rparr> =
     \<lparr>lb = Some 2, ub = Some 7\<rparr> \<and>
   IntervalValue_narrowing \<lparr>lb = Some 1, ub = Some 9\<rparr> \<lparr>lb = Some 2, ub = Some 5\<rparr> =
     \<lparr>lb = Some 1, ub = Some 9\<rparr> \<and>
   IntervalValue_narrowing \<lparr>lb = Some 1, ub = None\<rparr> \<lparr>lb = Some 2, ub = Some 5\<rparr> =
     \<lparr>lb = Some 1, ub = Some 5\<rparr> \<and>
   IntervalValue_narrowing IntervalValue_bottom \<lparr>lb = Some 1, ub = Some 5\<rparr> =
     IntervalValue_bottom"
proof -
  have "\<And>r. lb r = Some 2 \<Longrightarrow> ub r = Some 7 \<Longrightarrow> r = \<lparr>lb = Some 2, ub = Some 7\<rparr>"
    "\<And>r. lb r = Some 1 \<Longrightarrow> ub r = Some 9 \<Longrightarrow> r = \<lparr>lb = Some 1, ub = Some 9\<rparr>"
    "\<And>r. lb r = Some 1 \<Longrightarrow> ub r = Some 5 \<Longrightarrow> r = \<lparr>lb = Some 1, ub = Some 5\<rparr>"
    by simp_all
  then show ?thesis
    using narrowing_conservative [of "\<lparr>lb = None, ub = Some 7\<rparr>" "\<lparr>lb = Some 2, ub = Some 5\<rparr>"]
      narrowing_conservative [of "\<lparr>lb = Some 1, ub = Some 9\<rparr>" "\<lparr>lb = Some 2, ub = Some 5\<rparr>"]
      narrowing_conservative [of "\<lparr>lb = Some 1, ub = None\<rparr>" "\<lparr>lb = Some 2, ub = Some 5\<rparr>"]
      narrowing_conservative [of IntervalValue_bottom "\<lparr>lb = Some 1, ub = Some 5\<rparr>"]
    by (simp add: is_bottom_simps is_bottom_bottom)
qed

lemma widening_not_bottom:
  "\<not> is_bottom a \<Longrightarrow> \<not> is_bottom (IntervalValue_widening a x)"
  by (cases a) (auto simp: IntervalValue_widening_def is_bottom_def split: option.splits)

lemma widening_lb_cases:
  "\<not> is_bottom a \<Longrightarrow>
   lb (IntervalValue_widening a x) = lb a \<or>
   (lb a \<noteq> None \<and> lb (IntervalValue_widening a x) = None)"
  by (cases a) (auto simp: IntervalValue_widening_def is_bottom_def split: option.splits)

lemma widening_ub_cases:
  "\<not> is_bottom a \<Longrightarrow>
   ub (IntervalValue_widening a x) = ub a \<or>
   (ub a \<noteq> None \<and> ub (IntervalValue_widening a x) = None)"
  by (cases a) (auto simp: IntervalValue_widening_def is_bottom_def split: option.splits)

lemma widening_chain_Cons: "\<exists>rest. widening_chain a xs = a # rest"
  by (cases xs) simp_all

lemma changes_lb_chain:
  "\<not> is_bottom a \<Longrightarrow>
   changes (map lb (widening_chain a xs)) \<le> (if lb a = None then 0 else 1)"
proof (induction xs arbitrary: a)
  case Nil then show ?case by simp
next
  case (Cons x xs)
  let ?w = "IntervalValue_widening a x"
  have nb: "\<not> is_bottom ?w" using Cons.prems by (rule widening_not_bottom)
  have ih: "changes (map lb (widening_chain ?w xs)) \<le> (if lb ?w = None then 0 else 1)"
    using Cons.IH [OF nb] .
  obtain rest where r: "widening_chain ?w xs = ?w # rest"
    using widening_chain_Cons by blast
  have "changes (map lb (widening_chain a (x # xs))) =
      (if lb a = lb ?w then 0 else 1) + changes (map lb (widening_chain ?w xs))"
    by (simp add: r)
  with ih widening_lb_cases [OF Cons.prems, of x] show ?case by (auto split: if_splits)
qed

lemma changes_ub_chain:
  "\<not> is_bottom a \<Longrightarrow>
   changes (map ub (widening_chain a xs)) \<le> (if ub a = None then 0 else 1)"
proof (induction xs arbitrary: a)
  case Nil then show ?case by simp
next
  case (Cons x xs)
  let ?w = "IntervalValue_widening a x"
  have nb: "\<not> is_bottom ?w" using Cons.prems by (rule widening_not_bottom)
  have ih: "changes (map ub (widening_chain ?w xs)) \<le> (if ub ?w = None then 0 else 1)"
    using Cons.IH [OF nb] .
  obtain rest where r: "widening_chain ?w xs = ?w # rest"
    using widening_chain_Cons by blast
  have "changes (map ub (widening_chain a (x # xs))) =
      (if ub a = ub ?w then 0 else 1) + changes (map ub (widening_chain ?w xs))"
    by (simp add: r)
  with ih widening_ub_cases [OF Cons.prems, of x] show ?case by (auto split: if_splits)
qed

lemma changes_chain:
  "\<not> is_bottom a \<Longrightarrow> changes (widening_chain a xs) \<le> finite_sides a"
proof (induction xs arbitrary: a)
  case Nil then show ?case by simp
next
  case (Cons x xs)
  let ?w = "IntervalValue_widening a x"
  have nb: "\<not> is_bottom ?w" using Cons.prems by (rule widening_not_bottom)
  have ih: "changes (widening_chain ?w xs) \<le> finite_sides ?w"
    using Cons.IH [OF nb] .
  obtain rest where r: "widening_chain ?w xs = ?w # rest"
    using widening_chain_Cons by blast
  have step: "changes (widening_chain a (x # xs)) =
      (if a = ?w then 0 else 1) + changes (widening_chain ?w xs)"
    by (simp add: r)
  have dec: "a \<noteq> ?w \<Longrightarrow> finite_sides ?w < finite_sides a"
    using widening_lb_cases [OF Cons.prems, of x] widening_ub_cases [OF Cons.prems, of x]
    by (cases a; cases ?w) (auto simp: finite_sides_def split: if_splits)
  show ?case
  proof (cases "a = ?w")
    case True with step ih show ?thesis by simp
  next
    case False with step ih dec show ?thesis by simp
  qed
qed

lemma finite_sides_le_2: "finite_sides a \<le> 2"
  by (simp add: finite_sides_def)

lemma widening_sides:
  "\<not> is_bottom a \<Longrightarrow> \<not> is_bottom b \<Longrightarrow>
   lb (IntervalValue_widening a b) = (if lower_grown a b then None else lb a) \<and>
   ub (IntervalValue_widening a b) = (if upper_grown a b then None else ub a)"
  by (auto simp: IntervalValue_widening_def lower_grown_def upper_grown_def
      split: option.splits)

lemma IntervalValue_rebuild: "\<lparr>lb = lb b, ub = ub b\<rparr> = (b::IntervalValue)"
  by (cases b) simp

lemma widening_bottom_absorbed:
  "(is_bottom a \<longrightarrow> IntervalValue_widening a b = b) \<and>
   (\<not> is_bottom a \<longrightarrow> is_bottom b \<longrightarrow> IntervalValue_widening a b = a) \<and>
   (is_bottom b \<longrightarrow> IntervalValue_equals (IntervalValue_widening a b) a)"
  by (auto simp: IntervalValue_widening_def IntervalValue_equals_def IntervalValue_rebuild)

text \<open>
  C4, as the code has it: for intervals \<open>a\<close> and \<open>b\<close> that are not bottom, each side of
  \<^verbatim>\<open>a.widening(b)\<close> is unbounded when the bound of \<open>b\<close> lies strictly beyond the bound of
  \<open>a\<close> on that side, and the bound of \<open>a\<close> when it does not. A bottom operand is absorbed:
  the result is the other operand. Under repeated widening from an interval \<open>a\<close> that is
  not bottom, with any intervals \<open>xs\<close> whatever (growing or not), the lower bound changes
  at most once, the upper bound changes at most once, and at most two applications
  change the interval.
\<close>

theorem widening_single_step_jump:
  "(\<not> is_bottom a \<longrightarrow> \<not> is_bottom b \<longrightarrow>
      lb (IntervalValue_widening a b) = (if lower_grown a b then None else lb a) \<and>
      ub (IntervalValue_widening a b) = (if upper_grown a b then None else ub a)) \<and>
   (is_bottom a \<longrightarrow> IntervalValue_widening a b = b) \<and>
   (\<not> is_bottom a \<longrightarrow> is_bottom b \<longrightarrow> IntervalValue_widening a b = a) \<and>
   (is_bottom b \<longrightarrow> IntervalValue_equals (IntervalValue_widening a b) a) \<and>
   (\<not> is_bottom a \<longrightarrow>
      changes (map lb (widening_chain a xs)) \<le> 1 \<and>
      changes (map ub (widening_chain a xs)) \<le> 1 \<and>
      changes (widening_chain a xs) \<le> 2)"
proof -
  have "\<not> is_bottom a \<longrightarrow>
      changes (map lb (widening_chain a xs)) \<le> 1 \<and>
      changes (map ub (widening_chain a xs)) \<le> 1 \<and>
      changes (widening_chain a xs) \<le> 2"
  proof
    assume nb: "\<not> is_bottom a"
    have "changes (map lb (widening_chain a xs)) \<le> 1"
      using changes_lb_chain [OF nb, of xs] by (simp split: if_splits)
    moreover have "changes (map ub (widening_chain a xs)) \<le> 1"
      using changes_ub_chain [OF nb, of xs] by (simp split: if_splits)
    moreover have "changes (widening_chain a xs) \<le> 2"
      using changes_chain [OF nb, of xs] finite_sides_le_2 [of a] by simp
    ultimately show "changes (map lb (widening_chain a xs)) \<le> 1 \<and>
      changes (map ub (widening_chain a xs)) \<le> 1 \<and>
      changes (widening_chain a xs) \<le> 2" by simp
  qed
  with widening_sides [of a b] widening_bottom_absorbed [of a b] show ?thesis by blast
qed

theorem widening_single_step_jump_witness:
  "\<not> is_bottom \<lparr>lb = Some 1, ub = Some 5\<rparr> \<and> \<not> is_bottom \<lparr>lb = Some 0, ub = Some 5\<rparr> \<and>
   lower_grown \<lparr>lb = Some 1, ub = Some 5\<rparr> \<lparr>lb = Some 0, ub = Some 5\<rparr> \<and>
   \<not> upper_grown \<lparr>lb = Some 1, ub = Some 5\<rparr> \<lparr>lb = Some 0, ub = Some 5\<rparr> \<and>
   lb (IntervalValue_widening \<lparr>lb = Some 1, ub = Some 5\<rparr> \<lparr>lb = Some 0, ub = Some 5\<rparr>) = None \<and>
   ub (IntervalValue_widening \<lparr>lb = Some 1, ub = Some 5\<rparr> \<lparr>lb = Some 0, ub = Some 5\<rparr>) = Some 5 \<and>
   is_bottom IntervalValue_bottom \<and>
   IntervalValue_widening IntervalValue_bottom \<lparr>lb = Some 0, ub = Some 5\<rparr> =
     \<lparr>lb = Some 0, ub = Some 5\<rparr> \<and>
   IntervalValue_widening \<lparr>lb = Some 1, ub = Some 5\<rparr> IntervalValue_bottom =
     \<lparr>lb = Some 1, ub = Some 5\<rparr> \<and>
   changes (widening_chain \<lparr>lb = Some 1, ub = Some 5\<rparr>
     [\<lparr>lb = Some 0, ub = Some 5\<rparr>, \<lparr>lb = Some 0, ub = Some 7\<rparr>,
      \<lparr>lb = Some (- 3), ub = Some 9\<rparr>]) \<le> 2"
  using
    widening_single_step_jump [of "\<lparr>lb = Some 1, ub = Some 5\<rparr>" "\<lparr>lb = Some 0, ub = Some 5\<rparr>"
      "[\<lparr>lb = Some 0, ub = Some 5\<rparr>, \<lparr>lb = Some 0, ub = Some 7\<rparr>,
        \<lparr>lb = Some (- 3), ub = Some 9\<rparr>]"]
    widening_single_step_jump [of IntervalValue_bottom "\<lparr>lb = Some 0, ub = Some 5\<rparr>" "[]"]
    widening_single_step_jump [of "\<lparr>lb = Some 1, ub = Some 5\<rparr>" IntervalValue_bottom "[]"]
  by (simp add: lower_grown_def upper_grown_def is_bottom_simps is_bottom_bottom)

text \<open>
  C4 as stated fails for a growing sequence that starts at bottom: \<open>\<bottom>\<close>, \<^verbatim>\<open>[0,0]\<close>,
  \<^verbatim>\<open>[-1,0]\<close>, \<^verbatim>\<open>[-1,1]\<close>. The first application absorbs bottom, the second sends the lower
  bound to minus infinity, the third the upper bound to plus infinity: three
  applications change the interval, and the lower bound changes twice.
\<close>

theorem widening_from_bottom_counterexample:
  "contain \<lparr>lb = Some 0, ub = Some 0\<rparr> IntervalValue_bottom \<and>
   contain \<lparr>lb = Some (- 1), ub = Some 0\<rparr> \<lparr>lb = Some 0, ub = Some 0\<rparr> \<and>
   contain \<lparr>lb = Some (- 1), ub = Some 1\<rparr> \<lparr>lb = Some (- 1), ub = Some 0\<rparr> \<and>
   widening_chain IntervalValue_bottom
     [\<lparr>lb = Some 0, ub = Some 0\<rparr>, \<lparr>lb = Some (- 1), ub = Some 0\<rparr>,
      \<lparr>lb = Some (- 1), ub = Some 1\<rparr>] =
     [IntervalValue_bottom, \<lparr>lb = Some 0, ub = Some 0\<rparr>, \<lparr>lb = None, ub = Some 0\<rparr>,
      IntervalValue_top] \<and>
   changes (widening_chain IntervalValue_bottom
     [\<lparr>lb = Some 0, ub = Some 0\<rparr>, \<lparr>lb = Some (- 1), ub = Some 0\<rparr>,
      \<lparr>lb = Some (- 1), ub = Some 1\<rparr>]) = 3 \<and>
   changes (map lb (widening_chain IntervalValue_bottom
     [\<lparr>lb = Some 0, ub = Some 0\<rparr>, \<lparr>lb = Some (- 1), ub = Some 0\<rparr>,
      \<lparr>lb = Some (- 1), ub = Some 1\<rparr>])) = 2"
  by (simp add: IntervalValue_widening_def IntervalValue_bottom_def IntervalValue_top_def
      contain_def is_bottom_simps)

section \<open>Properties of the virtual-address encoding\<close>

lemma take_bit_and_push_bit: "take_bit n (i::int) AND push_bit n m = 0"
  by (rule bit_eqI) (auto simp: bit_simps)

lemma take_bit_and_not_push_bit: "take_bit n (i::int) AND NOT (push_bit n m) = take_bit n i"
  by (rule bit_eqI) (auto simp: bit_simps)

lemma id_and_mask:
  assumes "0 \<le> i" "i < 2 ^ 24"
  shows "i AND ADDR_MASK = 0"
proof -
  have "take_bit 24 i AND push_bit 24 (255::int) = 0"
    by (rule take_bit_and_push_bit)
  then show ?thesis using assms by (simp add: take_bit_int_eq_self ADDR_MASK_def)
qed

lemma id_and_not_mask:
  assumes "0 \<le> i" "i < 2 ^ 24"
  shows "i AND NOT ADDR_MASK = i"
proof -
  have "take_bit 24 i AND NOT (push_bit 24 (255::int)) = take_bit 24 i"
    by (rule take_bit_and_not_push_bit)
  then show ?thesis using assms by (simp add: take_bit_int_eq_self ADDR_MASK_def)
qed

lemma high_byte_and_mask: "ADDR_HIGH_BYTE AND ADDR_MASK = ADDR_HIGH_BYTE"
  by (simp add: ADDR_HIGH_BYTE_def ADDR_MASK_def)

lemma high_byte_and_not_mask: "ADDR_HIGH_BYTE AND NOT ADDR_MASK = 0"
  by (simp add: ADDR_HIGH_BYTE_def ADDR_MASK_def)

lemma isVirtualMemAddress_encode:
  assumes "0 \<le> i" "i < 2 ^ 24"
  shows "isVirtualMemAddress (getVirtualMemAddress i)"
  using id_and_mask [OF assms] high_byte_and_mask
  by (simp add: isVirtualMemAddress_def getVirtualMemAddress_def bit.conj_disj_distrib2)

lemma getInternalID_encode:
  assumes "0 \<le> i" "i < 2 ^ 24"
  shows "getInternalID (getVirtualMemAddress i) = i"
  using isVirtualMemAddress_encode [OF assms] id_and_not_mask [OF assms] high_byte_and_not_mask
  by (simp add: getInternalID_def getVirtualMemAddress_def bit.conj_disj_distrib2)

text \<open>
  C9: every id of the 24-bit id space, encoded and decoded, is the id again, and its
  encoding is a virtual address; decoding a value that is not a virtual address
  returns the value.
\<close>

theorem virtual_address_round_trip:
  "(0 \<le> i \<and> i < 2 ^ 24 \<longrightarrow>
      getInternalID (getVirtualMemAddress i) = i \<and>
      isVirtualMemAddress (getVirtualMemAddress i)) \<and>
   (\<not> isVirtualMemAddress v \<longrightarrow> getInternalID v = v)"
proof -
  have "\<not> isVirtualMemAddress v \<longrightarrow> getInternalID v = v"
    by (simp add: getInternalID_def)
  then show ?thesis
    using getInternalID_encode [of i] isVirtualMemAddress_encode [of i] by blast
qed

theorem virtual_address_round_trip_witness:
  "(0::int) \<le> 123 \<and> (123::int) < 2 ^ 24 \<and>
   getInternalID (getVirtualMemAddress 123) = 123 \<and>
   isVirtualMemAddress (getVirtualMemAddress 123) \<and>
   \<not> isVirtualMemAddress 123 \<and> getInternalID 123 = 123"
proof -
  have "\<not> isVirtualMemAddress 123"
    by (simp add: isVirtualMemAddress_def ADDR_MASK_def ADDR_HIGH_BYTE_def)
  then show ?thesis
    using virtual_address_round_trip [of 123 123] by simp
qed

section \<open>Properties of the abstract value\<close>

lemma AbstractValue_join_differing_tags:
  "differing_tags a b \<Longrightarrow> AbstractValue_join a b = Inl ValueError"
  by (cases a; cases b) (simp_all add: differing_tags_def)

lemma AbstractValue_meet_differing_tags:
  "differing_tags a b \<Longrightarrow> AbstractValue_meet a b = Inl ValueError"
  by (cases a; cases b) (simp_all add: differing_tags_def)

lemma AbstractValue_join_same_tag:
  "AbstractValue_join u w = Inr n \<Longrightarrow> differing_tags u v \<Longrightarrow> differing_tags n v \<and> \<not> differing_tags u w"
  by (cases u; cases w; cases v) (auto simp: differing_tags_def)

lemma joinWith_copy_Inr: "\<exists>c. joinWith_copy v = Inr c"
  by (cases v) (simp_all add: joinWith_copy_def)

lemma joinWith_loop_error:
  "joinWith_loop self items = Inl e \<Longrightarrow> e = ValueError"
proof (induction items arbitrary: self)
  case Nil then show ?case by simp
next
  case (Cons p items)
  obtain key v where p: "p = (key, v)" by (cases p)
  show ?case
  proof (cases "map_of self key")
    case None
    obtain c where c: "joinWith_copy v = Inr c" using joinWith_copy_Inr by blast
    with Cons.prems p None have "joinWith_loop (AList.update key c self) items = Inl e" by simp
    then show ?thesis by (rule Cons.IH)
  next
    case (Some u)
    show ?thesis
    proof (cases "AbstractValue_join u v")
      case (Inl e')
      then have "e' = ValueError" by (cases u; cases v) simp_all
      with Cons.prems p Some Inl show ?thesis by simp
    next
      case (Inr n)
      with Cons.prems p Some have "joinWith_loop (AList.update key n self) items = Inl e" by simp
      then show ?thesis by (rule Cons.IH)
    qed
  qed
qed

lemma joinWith_loop_differing_tags:
  "(k, v) \<in> set items \<Longrightarrow> map_of self k = Some u \<Longrightarrow> differing_tags u v \<Longrightarrow>
   joinWith_loop self items = Inl ValueError"
proof (induction items arbitrary: self u)
  case Nil then show ?case by simp
next
  case (Cons p items)
  obtain key w where p: "p = (key, w)" by (cases p)
  show ?case
  proof (cases "key = k")
    case True
    show ?thesis
    proof (cases "AbstractValue_join u w")
      case (Inl e)
      then have "e = ValueError" by (cases u; cases w) simp_all
      with Inl p True Cons.prems show ?thesis by simp
    next
      case (Inr n)
      from AbstractValue_join_same_tag [OF Inr Cons.prems(3)]
      have n: "differing_tags n v" and uw: "\<not> differing_tags u w" by simp_all
      from uw Cons.prems(3) have "w \<noteq> v" by auto
      with Cons.prems(1) p True have mem: "(k, v) \<in> set items" by auto
      have "map_of (AList.update k n self) k = Some n" by (simp add: update_conv')
      from Cons.IH [OF mem this n] Inr p True Cons.prems(2) show ?thesis by simp
    qed
  next
    case False
    with Cons.prems(1) p have mem: "(k, v) \<in> set items" by auto
    show ?thesis
    proof (cases "map_of self key")
      case None
      obtain c where c: "joinWith_copy w = Inr c" using joinWith_copy_Inr by blast
      have "map_of (AList.update key c self) k = Some u"
        using False Cons.prems(2) by (simp add: update_conv')
      from Cons.IH [OF mem this Cons.prems(3)] None c p show ?thesis by simp
    next
      case (Some x)
      show ?thesis
      proof (cases "AbstractValue_join x w")
        case (Inl e)
        then have "e = ValueError" by (cases x; cases w) simp_all
        with Inl p Some show ?thesis by simp
      next
        case (Inr n)
        have "map_of (AList.update key n self) k = Some u"
          using False Cons.prems(2) by (simp add: update_conv')
        from Cons.IH [OF mem this Cons.prems(3)] Some Inr p show ?thesis by simp
      qed
    qed
  qed
qed

lemma joinWith_differing_tags:
  assumes "(k, v) \<in> set (varToAbsVal other)" "map_of (varToAbsVal self) k = Some u"
    "differing_tags u v"
  shows "joinWith self other = Inl ValueError"
  using joinWith_loop_differing_tags [OF assms] by (simp add: joinWith_def)

lemma joinWith_differing_tags_addr:
  assumes "(k, v) \<in> set (addrToAbsVal other)" "map_of (addrToAbsVal self) k = Some u"
    "differing_tags u v"
  shows "joinWith self other = Inl ValueError"
proof (cases "joinWith_loop (varToAbsVal self) (varToAbsVal other)")
  case (Inl e)
  then have "e = ValueError" by (rule joinWith_loop_error)
  with Inl show ?thesis by (simp add: joinWith_def)
next
  case (Inr vs)
  with joinWith_loop_differing_tags [OF assms] show ?thesis by (simp add: joinWith_def)
qed

text \<open>
  C5 at a concrete input: the receiver \<^verbatim>\<open>{1:[1,5]}\<close> and the other state \<^verbatim>\<open>{1:{1,2}}\<close> hold
  key 1 under differing tags. \<^verbatim>\<open>joinWith\<close> raises \<^verbatim>\<open>ValueError\<close>; \<^verbatim>\<open>meetWith\<close> raises
  nothing and leaves the receiver as it was.
\<close>

theorem meetWith_differing_tags_no_error:
  "differing_tags (createInterval (Some 1) (Some 5)) (createAddress (Some {1, 2})) \<and>
   joinWith state_interval state_address = Inl ValueError \<and>
   meetWith state_interval state_address = Inr state_interval"
  by (simp add: meetWith_def meetWith_dict_def joinWith_def state_interval_def
      state_address_def createInterval_def createAddress_def differing_tags_def)

section \<open>Properties of the abstract state\<close>

text \<open>
  C1, as the code has it: \<^verbatim>\<open>state1.joinWith(state2)\<close> leaves \<^verbatim>\<open>{1:[1,10], 2:[15,20]}\<close> in the
  receiver, and \<^verbatim>\<open>meetWith(state2)\<close> on that receiver leaves \<^verbatim>\<open>{1:[3,10], 2:[15,20]}\<close>: after
  the join both states hold key 2, so the meet keeps it, and the meet of \<^verbatim>\<open>[1,10]\<close> and
  \<^verbatim>\<open>[3,10]\<close> is \<^verbatim>\<open>[3,10]\<close>.
\<close>

theorem joinWith_then_meetWith:
  "joinWith state1 state2 = Inr state12 \<and>
   meetWith state12 state2 =
     Inr \<lparr>varToAbsVal = [(1, createInterval (Some 3) (Some 10)),
                         (2, createInterval (Some 15) (Some 20))],
          addrToAbsVal = []\<rparr>"
  by (simp add: joinWith_def meetWith_def meetWith_dict_def state1_def state2_def state12_def
      createInterval_def joinWith_copy_def IntervalValue_join_def IntervalValue_meet_def
      is_bottom_simps)

text \<open>
  C1 as stated fails: the meet that follows the join does not leave \<^verbatim>\<open>{1:[3,5]}\<close>.
\<close>

theorem joinWith_then_meetWith_counterexample:
  "joinWith state1 state2 = Inr state12 \<and>
   meetWith state12 state2 \<noteq>
     Inr \<lparr>varToAbsVal = [(1, createInterval (Some 3) (Some 5))], addrToAbsVal = []\<rparr>"
  by (simp add: joinWith_def meetWith_def meetWith_dict_def state1_def state2_def state12_def
      createInterval_def joinWith_copy_def IntervalValue_join_def IntervalValue_meet_def
      is_bottom_simps)

text \<open>
  The state \<^verbatim>\<open>{1:[3,5]}\<close> is what the meet leaves when the receiver has not been joined
  first, and also when \<open>state2\<close> is the receiver: then key 2, which \<open>state1\<close> lacks, is
  deleted.
\<close>

lemma meetWith_without_join:
  "meetWith state1 state2 =
     Inr \<lparr>varToAbsVal = [(1, createInterval (Some 3) (Some 5))], addrToAbsVal = []\<rparr> \<and>
   meetWith state2 state1 =
     Inr \<lparr>varToAbsVal = [(1, createInterval (Some 3) (Some 5))], addrToAbsVal = []\<rparr>"
  by (simp add: meetWith_def meetWith_dict_def state1_def state2_def
      createInterval_def IntervalValue_meet_def is_bottom_simps)

lemma dict_copy_same: "dict_copy d = d"
  by (induction d) (auto simp: dict_copy_def)

lemma AbstractState_bottom_same_refs:
  "AbstractState_bottom h s = Inr (h', new_state) \<Longrightarrow> new_state = s"
  by (auto simp: AbstractState_bottom_def Let_def dict_copy_same split: sum.splits)

lemma AbstractState_top_same_refs:
  "AbstractState_top h s = Inr (h', new_state) \<Longrightarrow> new_state = s"
  by (auto simp: AbstractState_top_def Let_def dict_copy_same split: sum.splits)

text \<open>
  What \<^verbatim>\<open>bottom()\<close> and \<^verbatim>\<open>top()\<close> do for every store and every state: they return, with
  the receiver's own references; in the store they leave behind, an entry of the variable
  store that was an interval reads as bottom (as top), and one that was an address set
  reads as before.
\<close>

lemma bottom_loop_returns:
  "set keys \<subseteq> fst ` set d \<Longrightarrow> \<exists>h'. bottom_loop d keys h = Inr h'"
proof (induction keys arbitrary: h)
  case Nil then show ?case by simp
next
  case (Cons key keys)
  then obtain r where r: "map_of d key = Some r"
    by (cases "map_of d key") (auto simp: map_of_eq_None_iff)
  with Cons show ?case by (cases "absval_objs h r") simp_all
qed

lemma set_to_bottom_at_frame:
  "address_objs (set_to_bottom_at i h) = address_objs h"
  "absval_objs (set_to_bottom_at i h) = absval_objs h"
  "interval_objs (set_to_bottom_at i h) j = (if j = i then IntervalValue_bottom else interval_objs h j)"
  by (simp_all add: set_to_bottom_at_def set_to_bottom_def IntervalValue_bottom_def)

lemma bottom_loop_effect:
  "bottom_loop d keys h = Inr h' \<Longrightarrow>
   address_objs h' = address_objs h \<and> absval_objs h' = absval_objs h \<and>
   (\<forall>j. interval_objs h' j =
      (if \<exists>k \<in> set keys. \<exists>r. map_of d k = Some r \<and> absval_objs h r = IntervalRef j
       then IntervalValue_bottom else interval_objs h j))"
proof (induction keys arbitrary: h)
  case Nil then show ?case by simp
next
  case (Cons key keys)
  from Cons.prems obtain r where r: "map_of d key = Some r"
    by (auto split: option.splits)
  show ?case
  proof (cases "absval_objs h r")
    case (IntervalRef i)
    with Cons.prems r have "bottom_loop d keys (set_to_bottom_at i h) = Inr h'" by simp
    from Cons.IH [OF this] r IntervalRef show ?thesis
      by (auto simp: set_to_bottom_at_frame)
  next
    case (AddressRef a)
    with Cons.prems r have "bottom_loop d keys h = Inr h'" by simp
    from Cons.IH [OF this] r AddressRef show ?thesis by auto
  qed
qed

lemma AbstractState_bottom_returns:
  "\<exists>h'. AbstractState_bottom h s = Inr (h', s)"
proof -
  obtain h' where "bottom_loop (varToAbsVal_refs s) (map fst (varToAbsVal_refs s)) h = Inr h'"
    using bottom_loop_returns [of "map fst (varToAbsVal_refs s)" "varToAbsVal_refs s" h] by auto
  then show ?thesis by (simp add: AbstractState_bottom_def Let_def dict_copy_def)
qed

lemma AbstractState_bottom_effect:
  assumes "AbstractState_bottom h s = Inr (h', s')"
    and "map_of (varToAbsVal_refs s) k = Some r"
  shows "s' = s"
    and "isInterval (read_value h r) \<Longrightarrow> read_value h' r = Interval IntervalValue_bottom"
    and "isAddr (read_value h r) \<Longrightarrow> read_value h' r = read_value h r"
proof -
  from assms(1) have loop:
    "bottom_loop (varToAbsVal_refs s) (map fst (varToAbsVal_refs s)) h = Inr h'"
    and s': "s' = s"
    by (auto simp: AbstractState_bottom_def Let_def dict_copy_def split: sum.splits)
  show "s' = s" by (rule s')
  have k: "k \<in> set (map fst (varToAbsVal_refs s))"
    using assms(2) by (metis map_of_eq_None_iff option.distinct(1) set_map)
  note eff = bottom_loop_effect [OF loop]
  show "read_value h' r = Interval IntervalValue_bottom" if "isInterval (read_value h r)"
  proof -
    from that obtain i where i: "absval_objs h r = IntervalRef i"
      by (cases "absval_objs h r") (simp_all add: read_value_def)
    with k assms(2) eff have "interval_objs h' i = IntervalValue_bottom" by auto
    with i eff show ?thesis by (simp add: read_value_def)
  qed
  show "read_value h' r = read_value h r" if "isAddr (read_value h r)"
  proof -
    from that obtain a where a: "absval_objs h r = AddressRef a"
      by (cases "absval_objs h r") (simp_all add: read_value_def)
    with eff show ?thesis by (simp add: read_value_def)
  qed
qed

lemma top_loop_returns:
  "set keys \<subseteq> fst ` set d \<Longrightarrow> \<exists>h'. top_loop d keys h = Inr h'"
proof (induction keys arbitrary: h)
  case Nil then show ?case by simp
next
  case (Cons key keys)
  then obtain r where r: "map_of d key = Some r"
    by (cases "map_of d key") (auto simp: map_of_eq_None_iff)
  with Cons show ?case by (cases "absval_objs h r") simp_all
qed

lemma set_to_top_at_frame:
  "address_objs (set_to_top_at i h) = address_objs h"
  "absval_objs (set_to_top_at i h) = absval_objs h"
  "interval_objs (set_to_top_at i h) j = (if j = i then IntervalValue_top else interval_objs h j)"
  by (simp_all add: set_to_top_at_def set_to_top_def IntervalValue_top_def)

lemma top_loop_effect:
  "top_loop d keys h = Inr h' \<Longrightarrow>
   address_objs h' = address_objs h \<and> absval_objs h' = absval_objs h \<and>
   (\<forall>j. interval_objs h' j =
      (if \<exists>k \<in> set keys. \<exists>r. map_of d k = Some r \<and> absval_objs h r = IntervalRef j
       then IntervalValue_top else interval_objs h j))"
proof (induction keys arbitrary: h)
  case Nil then show ?case by simp
next
  case (Cons key keys)
  from Cons.prems obtain r where r: "map_of d key = Some r"
    by (auto split: option.splits)
  show ?case
  proof (cases "absval_objs h r")
    case (IntervalRef i)
    with Cons.prems r have "top_loop d keys (set_to_top_at i h) = Inr h'" by simp
    from Cons.IH [OF this] r IntervalRef show ?thesis
      by (auto simp: set_to_top_at_frame)
  next
    case (AddressRef a)
    with Cons.prems r have "top_loop d keys h = Inr h'" by simp
    from Cons.IH [OF this] r AddressRef show ?thesis by auto
  qed
qed

lemma AbstractState_top_returns:
  "\<exists>h'. AbstractState_top h s = Inr (h', s)"
proof -
  obtain h' where "top_loop (varToAbsVal_refs s) (map fst (varToAbsVal_refs s)) h = Inr h'"
    using top_loop_returns [of "map fst (varToAbsVal_refs s)" "varToAbsVal_refs s" h] by auto
  then show ?thesis by (simp add: AbstractState_top_def Let_def dict_copy_def)
qed

lemma AbstractState_top_effect:
  assumes "AbstractState_top h s = Inr (h', s')"
    and "map_of (varToAbsVal_refs s) k = Some r"
  shows "s' = s"
    and "isInterval (read_value h r) \<Longrightarrow> read_value h' r = Interval IntervalValue_top"
    and "isAddr (read_value h r) \<Longrightarrow> read_value h' r = read_value h r"
proof -
  from assms(1) have loop:
    "top_loop (varToAbsVal_refs s) (map fst (varToAbsVal_refs s)) h = Inr h'"
    and s': "s' = s"
    by (auto simp: AbstractState_top_def Let_def dict_copy_def split: sum.splits)
  show "s' = s" by (rule s')
  have k: "k \<in> set (map fst (varToAbsVal_refs s))"
    using assms(2) by (metis map_of_eq_None_iff option.distinct(1) set_map)
  note eff = top_loop_effect [OF loop]
  show "read_value h' r = Interval IntervalValue_top" if "isInterval (read_value h r)"
  proof -
    from that obtain i where i: "absval_objs h r = IntervalRef i"
      by (cases "absval_objs h r") (simp_all add: read_value_def)
    with k assms(2) eff have "interval_objs h' i = IntervalValue_top" by auto
    with i eff show ?thesis by (simp add: read_value_def)
  qed
  show "read_value h' r = read_value h r" if "isAddr (read_value h r)"
  proof -
    from that obtain a where a: "absval_objs h r = AddressRef a"
      by (cases "absval_objs h r") (simp_all add: read_value_def)
    with eff show ?thesis by (simp add: read_value_def)
  qed
qed

text \<open>
  C2 at a concrete input. In \<open>store0\<close> the state \<open>obj_state\<close> reads as
  \<^verbatim>\<open>{1:[1,5], 2:{3,4}}\<close> with the object store \<^verbatim>\<open>{5:[2,3]}\<close>. \<^verbatim>\<open>bottom()\<close> returns a state
  with the references of the receiver and overwrites the \<^verbatim>\<open>IntervalValue\<close> object of key
  1 in place: afterwards the receiver itself reads as \<^verbatim>\<open>{1:\<bottom>, 2:{3,4}}\<close>. The interval
  under key 5 of the object store is not set to bottom. \<^verbatim>\<open>top()\<close> does the same with top.
\<close>

theorem bottom_top_mutate_receiver:
  "read_state store0 obj_state =
     \<lparr>varToAbsVal = [(1, createInterval (Some 1) (Some 5)), (2, createAddress (Some {3, 4}))],
      addrToAbsVal = [(5, createInterval (Some 2) (Some 3))]\<rparr> \<and>
   AbstractState_bottom store0 obj_state = Inr (store_bottom, obj_state) \<and>
   read_state store_bottom obj_state =
     \<lparr>varToAbsVal = [(1, Interval IntervalValue_bottom), (2, createAddress (Some {3, 4}))],
      addrToAbsVal = [(5, createInterval (Some 2) (Some 3))]\<rparr> \<and>
   AbstractState_top store0 obj_state = Inr (store_top, obj_state) \<and>
   read_state store_top obj_state =
     \<lparr>varToAbsVal = [(1, Interval IntervalValue_top), (2, createAddress (Some {3, 4}))],
      addrToAbsVal = [(5, createInterval (Some 2) (Some 3))]\<rparr> \<and>
   read_state store_bottom obj_state \<noteq> read_state store0 obj_state \<and>
   read_state store_top obj_state \<noteq> read_state store0 obj_state"
  by (simp add: read_state_def read_dict_def read_value_def store0_def obj_state_def
      store_bottom_def store_top_def AbstractState_bottom_def AbstractState_top_def
      dict_copy_def set_to_bottom_at_def set_to_top_at_def set_to_bottom_def set_to_top_def
      createInterval_def createAddress_def AddressValue_init_def
      IntervalValue_bottom_def IntervalValue_top_def)

text \<open>
  Retrieval on values: \<^verbatim>\<open>state[var_id]\<close> is the stored value when the variable store has
  the key and the top interval when it has not; \<^verbatim>\<open>load\<close> of a virtual address is the value
  stored under the decoded object id when the object store has it and the top interval
  when it has not.
\<close>

lemma retrieval_absent_is_top:
  "(map_of (varToAbsVal s) k = Some v \<longrightarrow> getitem s k = v) \<and>
   (map_of (varToAbsVal s) k = None \<longrightarrow>
      getitem s k = Interval IntervalValue_top \<and> getitem s k = createInterval None None) \<and>
   (isVirtualMemAddress addr \<longrightarrow> map_of (addrToAbsVal s) (getInternalID addr) = Some w \<longrightarrow>
      load s addr = Inr w) \<and>
   (isVirtualMemAddress addr \<longrightarrow> map_of (addrToAbsVal s) (getInternalID addr) = None \<longrightarrow>
      load s addr = Inr (Interval IntervalValue_top))"
  by (simp add: getitem_def load_def createInterval_def IntervalValue_top_def)

lemma isVirtualMemAddress_123: "isVirtualMemAddress (getVirtualMemAddress 123)"
  by (rule isVirtualMemAddress_encode) simp_all

lemma getInternalID_123: "getInternalID (getVirtualMemAddress 123) = 123"
  by (rule getInternalID_encode) simp_all

lemma isVirtualMemAddress_7: "isVirtualMemAddress (getVirtualMemAddress 7)"
  by (rule isVirtualMemAddress_encode) simp_all

lemma getInternalID_7: "getInternalID (getVirtualMemAddress 7) = 7"
  by (rule getInternalID_encode) simp_all

lemma isVirtualMemAddress_0: "isVirtualMemAddress (getVirtualMemAddress 0)"
  by (rule isVirtualMemAddress_encode) simp_all

lemma getInternalID_0: "getInternalID (getVirtualMemAddress 0) = 0"
  by (rule getInternalID_encode) simp_all

lemma not_isVirtualMemAddress_123: "\<not> isVirtualMemAddress 123"
  by (simp add: isVirtualMemAddress_def ADDR_MASK_def ADDR_HIGH_BYTE_def)

lemma retrieval_absent_is_top_examples:
  "getitem state_stored 1 = createInterval (Some 1) (Some 5) \<and>
   getitem state_stored 2 = Interval IntervalValue_top \<and>
   isVirtualMemAddress (getVirtualMemAddress 123) \<and>
   load state_stored (getVirtualMemAddress 123) = Inr (createInterval (Some 42) (Some 42)) \<and>
   isVirtualMemAddress (getVirtualMemAddress 7) \<and>
   load state_stored (getVirtualMemAddress 7) = Inr (Interval IntervalValue_top)"
  using
    retrieval_absent_is_top [of state_stored 1 "createInterval (Some 1) (Some 5)"
      "getVirtualMemAddress 123" "createInterval (Some 42) (Some 42)"]
    retrieval_absent_is_top [of state_stored 2 "createInterval (Some 1) (Some 5)"
      "getVirtualMemAddress 7" "createInterval (Some 42) (Some 42)"]
  by (simp add: state_stored_def isVirtualMemAddress_123 getInternalID_123
      isVirtualMemAddress_7 getInternalID_7)

text \<open>
  Retrieval on objects. \<^verbatim>\<open>createInterval()\<close> returns a fresh top interval, leaves every
  object that existed as it was, and the objects of a state stay created.
\<close>

lemma createInterval_obj_fresh:
  "fresh_top_interval st (createInterval_obj None None st)"
  by (simp add: fresh_top_interval_def createInterval_obj_def Let_def IntervalValue_top_def)

lemma createInterval_obj_read_value:
  "value_allocated st r \<Longrightarrow>
   read_value (objs (snd (createInterval_obj l u st))) r = read_value (objs st) r"
  by (auto simp: value_allocated_def createInterval_obj_def Let_def read_value_def
      split: AbstractValue_obj.splits)

lemma createInterval_obj_read_new:
  "read_value (objs (snd (createInterval_obj l u st))) (fst (createInterval_obj l u st)) =
   createInterval l u"
  by (simp add: createInterval_obj_def Let_def read_value_def createInterval_def)

lemma createInterval_obj_read_dict:
  "list_all (\<lambda>(k, r). value_allocated st r) d \<Longrightarrow>
   read_dict (objs (snd (createInterval_obj l u st))) d = read_dict (objs st) d"
  by (induction d) (auto simp: read_dict_def createInterval_obj_read_value)

lemma createInterval_obj_read_state:
  "refs_allocated st s \<Longrightarrow>
   read_state (objs (snd (createInterval_obj l u st))) s = read_state (objs st) s"
  by (simp add: refs_allocated_def read_state_def createInterval_obj_read_dict)

lemma createInterval_obj_allocated:
  "value_allocated st r \<Longrightarrow> value_allocated (snd (createInterval_obj l u st)) r"
  by (auto simp: value_allocated_def createInterval_obj_def Let_def
      split: AbstractValue_obj.splits)

lemma map_of_read_dict:
  "map_of (read_dict h d) k = map_option (read_value h) (map_of d k)"
  by (induction d) (auto simp: read_dict_def)

lemma allocated_in_dict:
  "list_all (\<lambda>(k, r). value_allocated st r) d \<Longrightarrow> map_of d k = Some r \<Longrightarrow>
   value_allocated st r"
  by (induction d) (auto split: if_splits)

lemma fresh_not_in_dict:
  "list_all (\<lambda>(k, r). value_allocated st r) d \<Longrightarrow> next_absval st \<le> r \<Longrightarrow>
   r \<notin> snd ` set d"
  by (induction d) (auto simp: value_allocated_def)

lemma getitem_obj_store: "snd (getitem_obj st s k) = snd (createInterval_obj None None st)"
  by (simp add: getitem_obj_def split: prod.splits option.splits)

lemma getitem_obj_present:
  "map_of (varToAbsVal_refs s) k = Some r \<Longrightarrow> fst (getitem_obj st s k) = r"
  by (simp add: getitem_obj_def split: prod.splits)

lemma getitem_obj_absent:
  "map_of (varToAbsVal_refs s) k = None \<Longrightarrow>
   getitem_obj st s k = createInterval_obj None None st"
  by (simp add: getitem_obj_def split: prod.splits)

lemma refs_allocated_createInterval_obj:
  "refs_allocated st s \<Longrightarrow> refs_allocated (snd (createInterval_obj l u st)) s"
proof -
  assume al: "refs_allocated st s"
  have keep: "list_all (\<lambda>(k, r). value_allocated st r) d \<Longrightarrow>
      list_all (\<lambda>(k, r). value_allocated (snd (createInterval_obj l u st)) r) d" for d
    by (induction d) (auto simp: createInterval_obj_allocated)
  from al have "list_all (\<lambda>(k, r). value_allocated st r) (varToAbsVal_refs s)"
    and "list_all (\<lambda>(k, r). value_allocated st r) (addrToAbsVal_refs s)"
    by (simp_all add: refs_allocated_def)
  then show "refs_allocated (snd (createInterval_obj l u st)) s"
    unfolding refs_allocated_def by (intro conjI keep)
qed

lemma fresh_top_interval_bound:
  "fresh_top_interval st res \<Longrightarrow> next_absval st \<le> fst res"
  by (cases res) (simp add: fresh_top_interval_def)

lemma getitem_obj_reads_getitem:
  assumes "refs_allocated st s"
  shows "read_value (objs (snd (getitem_obj st s k))) (fst (getitem_obj st s k)) =
         getitem (read_state (objs st) s) k"
proof (cases "map_of (varToAbsVal_refs s) k")
  case None
  then show ?thesis
    by (simp add: getitem_obj_absent createInterval_obj_read_new getitem_def read_state_def
        map_of_read_dict)
next
  case (Some r)
  with assms have "value_allocated st r"
    by (auto simp: refs_allocated_def intro: allocated_in_dict)
  with Some show ?thesis
    by (simp add: getitem_obj_present getitem_obj_store createInterval_obj_read_value
        getitem_def read_state_def map_of_read_dict)
qed

lemma load_obj_reads_load:
  assumes "refs_allocated st s" "isVirtualMemAddress addr"
  shows "\<exists>r' st'. load_obj st s addr = Inr (r', st') \<and>
           refs_allocated st' s \<and>
           read_state (objs st') s = read_state (objs st) s \<and>
           load (read_state (objs st) s) addr = Inr (read_value (objs st') r') \<and>
           (map_of (addrToAbsVal_refs s) (getInternalID addr) = None \<longrightarrow>
              r' \<notin> snd ` set (varToAbsVal_refs s) \<union> snd ` set (addrToAbsVal_refs s))"
proof (cases "map_of (addrToAbsVal_refs s) (getInternalID addr)")
  case None
  obtain r' st' where c: "createInterval_obj None None st = (r', st')"
    by (cases "createInterval_obj None None st")
  have fr: "next_absval st \<le> r'"
    using fresh_top_interval_bound [OF createInterval_obj_fresh, of st] c by simp
  have "load_obj st s addr = Inr (r', st')"
    using assms(2) None c by (simp add: load_obj_def)
  moreover have "refs_allocated st' s"
    using refs_allocated_createInterval_obj [OF assms(1), of None None] c by simp
  moreover have "read_state (objs st') s = read_state (objs st) s"
    using createInterval_obj_read_state [OF assms(1), of None None] c by simp
  moreover have "load (read_state (objs st) s) addr = Inr (read_value (objs st') r')"
    using assms(2) None createInterval_obj_read_new [of None None st] c
    by (simp add: load_def read_state_def map_of_read_dict)
  moreover have "r' \<notin> snd ` set (varToAbsVal_refs s) \<union> snd ` set (addrToAbsVal_refs s)"
    using assms(1) fr fresh_not_in_dict [of st _ r'] by (auto simp: refs_allocated_def)
  ultimately show ?thesis by blast
next
  case (Some r)
  then show ?thesis
    using assms by (simp add: load_obj_def load_def read_state_def map_of_read_dict)
qed

text \<open>
  C6: \<^verbatim>\<open>state[var_id]\<close> returns the object the variable store holds under the key when it
  holds one, and a fresh top interval when it does not; \<^verbatim>\<open>load\<close> of a virtual address
  returns the object the object store holds under the decoded object id when it holds
  one, and a fresh top interval when it does not. Fresh: the \<^verbatim>\<open>AbstractValue\<close> object and
  its \<^verbatim>\<open>IntervalValue\<close> object did not exist before the call, so no dictionary of the
  state holds them, and a second retrieval returns another object. The state reads the
  same before and after, and the object returned reads as the value that \<open>getitem\<close> and
  \<open>load\<close> give on the state's values.
\<close>

theorem retrieval_absent_is_fresh_top:
  "(map_of (varToAbsVal_refs s) k = Some r \<longrightarrow> fst (getitem_obj st s k) = r) \<and>
   (map_of (varToAbsVal_refs s) k = None \<longrightarrow>
      fresh_top_interval st (getitem_obj st s k) \<and>
      fst (getitem_obj (snd (getitem_obj st s k)) s k) \<noteq> fst (getitem_obj st s k)) \<and>
   (isVirtualMemAddress addr \<longrightarrow> map_of (addrToAbsVal_refs s) (getInternalID addr) = Some r \<longrightarrow>
      load_obj st s addr = Inr (r, st)) \<and>
   (isVirtualMemAddress addr \<longrightarrow> map_of (addrToAbsVal_refs s) (getInternalID addr) = None \<longrightarrow>
      (\<exists>res. load_obj st s addr = Inr res \<and> fresh_top_interval st res \<and>
         (\<exists>res'. load_obj (snd res) s addr = Inr res' \<and> fst res' \<noteq> fst res))) \<and>
   (refs_allocated st s \<longrightarrow>
      refs_allocated (snd (getitem_obj st s k)) s \<and>
      read_state (objs (snd (getitem_obj st s k))) s = read_state (objs st) s \<and>
      read_value (objs (snd (getitem_obj st s k))) (fst (getitem_obj st s k)) =
        getitem (read_state (objs st) s) k \<and>
      (map_of (varToAbsVal_refs s) k = None \<longrightarrow>
         fst (getitem_obj st s k) \<notin>
           snd ` set (varToAbsVal_refs s) \<union> snd ` set (addrToAbsVal_refs s))) \<and>
   (refs_allocated st s \<longrightarrow> isVirtualMemAddress addr \<longrightarrow>
      (\<exists>r' st'. load_obj st s addr = Inr (r', st') \<and>
         refs_allocated st' s \<and>
         read_state (objs st') s = read_state (objs st) s \<and>
         load (read_state (objs st) s) addr = Inr (read_value (objs st') r') \<and>
         (map_of (addrToAbsVal_refs s) (getInternalID addr) = None \<longrightarrow>
            r' \<notin> snd ` set (varToAbsVal_refs s) \<union> snd ` set (addrToAbsVal_refs s))))"
proof -
  have present: "map_of (varToAbsVal_refs s) k = Some r \<longrightarrow> fst (getitem_obj st s k) = r"
    by (simp add: getitem_obj_present)
  have absent: "map_of (varToAbsVal_refs s) k = None \<longrightarrow>
      fresh_top_interval st (getitem_obj st s k) \<and>
      fst (getitem_obj (snd (getitem_obj st s k)) s k) \<noteq> fst (getitem_obj st s k)"
    by (simp add: getitem_obj_absent createInterval_obj_fresh)
      (simp add: createInterval_obj_def Let_def)
  have lpresent: "isVirtualMemAddress addr \<longrightarrow>
      map_of (addrToAbsVal_refs s) (getInternalID addr) = Some r \<longrightarrow>
      load_obj st s addr = Inr (r, st)"
    by (simp add: load_obj_def)
  have labsent: "isVirtualMemAddress addr \<longrightarrow>
      map_of (addrToAbsVal_refs s) (getInternalID addr) = None \<longrightarrow>
      (\<exists>res. load_obj st s addr = Inr res \<and> fresh_top_interval st res \<and>
         (\<exists>res'. load_obj (snd res) s addr = Inr res' \<and> fst res' \<noteq> fst res))"
    by (simp add: load_obj_def createInterval_obj_fresh)
      (simp add: createInterval_obj_def Let_def)
  have gread: "refs_allocated st s \<longrightarrow>
      refs_allocated (snd (getitem_obj st s k)) s \<and>
      read_state (objs (snd (getitem_obj st s k))) s = read_state (objs st) s \<and>
      read_value (objs (snd (getitem_obj st s k))) (fst (getitem_obj st s k)) =
        getitem (read_state (objs st) s) k \<and>
      (map_of (varToAbsVal_refs s) k = None \<longrightarrow>
         fst (getitem_obj st s k) \<notin>
           snd ` set (varToAbsVal_refs s) \<union> snd ` set (addrToAbsVal_refs s))"
  proof
    assume al: "refs_allocated st s"
    have "fst (getitem_obj st s k) \<notin>
           snd ` set (varToAbsVal_refs s) \<union> snd ` set (addrToAbsVal_refs s)"
      if "map_of (varToAbsVal_refs s) k = None"
    proof -
      have "next_absval st \<le> fst (getitem_obj st s k)"
        using that fresh_top_interval_bound [OF createInterval_obj_fresh, of st]
        by (simp add: getitem_obj_absent)
      with al fresh_not_in_dict [of st _ "fst (getitem_obj st s k)"] show ?thesis
        by (auto simp: refs_allocated_def)
    qed
    moreover have "refs_allocated (snd (getitem_obj st s k)) s"
      using al by (simp add: getitem_obj_store refs_allocated_createInterval_obj)
    moreover have "read_state (objs (snd (getitem_obj st s k))) s = read_state (objs st) s"
      using al by (simp add: getitem_obj_store createInterval_obj_read_state)
    moreover note getitem_obj_reads_getitem [OF al, of k]
    ultimately show "refs_allocated (snd (getitem_obj st s k)) s \<and>
      read_state (objs (snd (getitem_obj st s k))) s = read_state (objs st) s \<and>
      read_value (objs (snd (getitem_obj st s k))) (fst (getitem_obj st s k)) =
        getitem (read_state (objs st) s) k \<and>
      (map_of (varToAbsVal_refs s) k = None \<longrightarrow>
         fst (getitem_obj st s k) \<notin>
           snd ` set (varToAbsVal_refs s) \<union> snd ` set (addrToAbsVal_refs s))"
      by blast
  qed
  from present absent lpresent labsent gread load_obj_reads_load [of st s addr]
  show ?thesis by blast
qed

lemma isVirtualMemAddress_5: "isVirtualMemAddress (getVirtualMemAddress 5)"
  by (rule isVirtualMemAddress_encode) simp_all

lemma getInternalID_5: "getInternalID (getVirtualMemAddress 5) = 5"
  by (rule getInternalID_encode) simp_all

lemma refs_allocated_obj_store0: "refs_allocated obj_store0 obj_state"
  by (simp add: refs_allocated_def value_allocated_def obj_store0_def obj_state_def store0_def)

theorem retrieval_absent_is_fresh_top_witness:
  "refs_allocated obj_store0 obj_state \<and>
   map_of (varToAbsVal_refs obj_state) 1 = Some 0 \<and>
   fst (getitem_obj obj_store0 obj_state 1) = 0 \<and>
   map_of (varToAbsVal_refs obj_state) 9 = None \<and>
   fresh_top_interval obj_store0 (getitem_obj obj_store0 obj_state 9) \<and>
   fst (getitem_obj obj_store0 obj_state 9) = 3 \<and>
   read_value (objs (snd (getitem_obj obj_store0 obj_state 9)))
     (fst (getitem_obj obj_store0 obj_state 9)) = Interval IntervalValue_top \<and>
   read_state (objs (snd (getitem_obj obj_store0 obj_state 9))) obj_state =
     read_state store0 obj_state \<and>
   isVirtualMemAddress (getVirtualMemAddress 5) \<and>
   map_of (addrToAbsVal_refs obj_state) (getInternalID (getVirtualMemAddress 5)) = Some 2 \<and>
   load_obj obj_store0 obj_state (getVirtualMemAddress 5) = Inr (2, obj_store0) \<and>
   isVirtualMemAddress (getVirtualMemAddress 7) \<and>
   map_of (addrToAbsVal_refs obj_state) (getInternalID (getVirtualMemAddress 7)) = None \<and>
   (\<exists>res. load_obj obj_store0 obj_state (getVirtualMemAddress 7) = Inr res \<and>
      fresh_top_interval obj_store0 res \<and> fst res = 3)"
proof -
  note al = refs_allocated_obj_store0
  have h: "map_of (varToAbsVal_refs obj_state) 1 = Some 0"
    "map_of (varToAbsVal_refs obj_state) 9 = None"
    "isVirtualMemAddress (getVirtualMemAddress 5)"
    "map_of (addrToAbsVal_refs obj_state) (getInternalID (getVirtualMemAddress 5)) = Some 2"
    "isVirtualMemAddress (getVirtualMemAddress 7)"
    "map_of (addrToAbsVal_refs obj_state) (getInternalID (getVirtualMemAddress 7)) = None"
    by (simp_all add: obj_state_def isVirtualMemAddress_5
        getInternalID_5 isVirtualMemAddress_7 getInternalID_7)
  have top: "getitem (read_state (objs obj_store0) obj_state) 9 = Interval IntervalValue_top"
    by (simp add: getitem_def read_state_def read_dict_def obj_state_def createInterval_def
        IntervalValue_top_def)
  have three: "fst (getitem_obj obj_store0 obj_state 9) = 3"
    "fst (createInterval_obj None None obj_store0) = 3"
    by (simp_all add: getitem_obj_def createInterval_obj_def Let_def obj_store0_def
        obj_state_def)
  have st: "objs obj_store0 = store0"
    by (simp add: obj_store0_def)
  have ld: "load_obj obj_store0 obj_state (getVirtualMemAddress 7) =
      Inr (createInterval_obj None None obj_store0)"
    using h(5,6) by (simp add: load_obj_def)
  from al h top three st ld
    retrieval_absent_is_fresh_top
      [where s = obj_state and k = 1 and r = 0 and st = obj_store0
         and addr = "getVirtualMemAddress 7"]
    retrieval_absent_is_fresh_top
      [where s = obj_state and k = 9 and r = 2 and st = obj_store0
         and addr = "getVirtualMemAddress 5"]
  show ?thesis by auto
qed

text \<open>
  C7: \<^verbatim>\<open>store\<close> fails its assertion when the address is not virtual; at a virtual address
  that decodes to object id 0 it returns with both stores as they were; at any other
  virtual address it puts the value under the decoded object id of the object store and
  changes nothing else.
\<close>

theorem store_rules:
  "(\<not> isVirtualMemAddress addr \<longrightarrow> store s addr v = Inl AssertionError) \<and>
   (isVirtualMemAddress addr \<longrightarrow> getInternalID addr = 0 \<longrightarrow> store s addr v = Inr s) \<and>
   (isVirtualMemAddress addr \<longrightarrow> getInternalID addr \<noteq> 0 \<longrightarrow>
      (\<exists>s'. store s addr v = Inr s' \<and>
            map_of (addrToAbsVal s') (getInternalID addr) = Some v \<and>
            (\<forall>k. k \<noteq> getInternalID addr \<longrightarrow>
                 map_of (addrToAbsVal s') k = map_of (addrToAbsVal s) k) \<and>
            varToAbsVal s' = varToAbsVal s))"
  by (simp add: store_def Let_def update_conv')

theorem store_rules_witness:
  "\<not> isVirtualMemAddress 123 \<and>
   store state_stored 123 (createInterval (Some 0) (Some 0)) = Inl AssertionError \<and>
   isVirtualMemAddress (getVirtualMemAddress 0) \<and> getInternalID (getVirtualMemAddress 0) = 0 \<and>
   store state_stored (getVirtualMemAddress 0) (createInterval (Some 0) (Some 0)) =
     Inr state_stored \<and>
   isVirtualMemAddress (getVirtualMemAddress 7) \<and> getInternalID (getVirtualMemAddress 7) \<noteq> 0 \<and>
   (\<exists>s'. store state_stored (getVirtualMemAddress 7) (createInterval (Some 0) (Some 0)) = Inr s' \<and>
         map_of (addrToAbsVal s') 7 = Some (createInterval (Some 0) (Some 0)) \<and>
         map_of (addrToAbsVal s') 123 = Some (createInterval (Some 42) (Some 42)) \<and>
         varToAbsVal s' = varToAbsVal state_stored)"
  using
    store_rules [of 123 state_stored "createInterval (Some 0) (Some 0)"]
    store_rules [of "getVirtualMemAddress 0" state_stored "createInterval (Some 0) (Some 0)"]
    store_rules [of "getVirtualMemAddress 7" state_stored "createInterval (Some 0) (Some 0)"]
  by (auto simp: not_isVirtualMemAddress_123 isVirtualMemAddress_0 getInternalID_0
      isVirtualMemAddress_7 getInternalID_7 state_stored_def)

lemma all_keys_subset: "set (all_keys self other) \<subseteq> fst ` set self \<union> fst ` set other"
  by (auto simp: all_keys_def)

lemma widening_loop_total:
  "set keys \<subseteq> fst ` set self \<union> fst ` set other \<Longrightarrow>
   \<exists>r. widening_loop self other keys result = Inr r"
proof (induction keys arbitrary: result)
  case Nil then show ?case by simp
next
  case (Cons key keys)
  then have "map_of self key \<noteq> None \<or> map_of other key \<noteq> None"
    by (auto simp: map_of_eq_None_iff)
  moreover have "\<And>res. \<exists>r. widening_loop self other keys res = Inr r"
    using Cons by simp
  ultimately show ?case
    apply (cases "map_of self key"; cases "map_of other key")
       apply simp_all
    subgoal for sv ov by (cases sv; cases ov) simp_all
    done
qed

lemma widening_loop_skip:
  "widening_loop self other keys result = Inr r \<Longrightarrow>
   map_of self k = Some a \<Longrightarrow> map_of other k = Some b \<Longrightarrow> differing_tags a b \<Longrightarrow>
   map_of r k = map_of result k"
proof (induction keys arbitrary: result)
  case Nil then show ?case by simp
next
  case (Cons key keys)
  show ?case
  proof (cases "key = k")
    case True
    with Cons.prems have "widening_loop self other keys result = Inr r"
      by (cases a; cases b) (auto simp: differing_tags_def)
    with Cons show ?thesis by blast
  next
    case False
    from Cons.prems(1) obtain result' where
      step: "widening_loop self other keys result' = Inr r" and
      same: "map_of result' k = map_of result k"
      using False
      by (auto simp: update_conv' split: option.splits if_splits sum.splits)
    with Cons show ?thesis by metis
  qed
qed

lemma narrowing_loop_total:
  "set keys \<subseteq> fst ` set self \<union> fst ` set other \<Longrightarrow>
   \<exists>r. narrowing_loop self other keys result = Inr r"
proof (induction keys arbitrary: result)
  case Nil then show ?case by simp
next
  case (Cons key keys)
  then have "map_of self key \<noteq> None \<or> map_of other key \<noteq> None"
    by (auto simp: map_of_eq_None_iff)
  moreover have "\<And>res. \<exists>r. narrowing_loop self other keys res = Inr r"
    using Cons by simp
  ultimately show ?case
    apply (cases "map_of self key"; cases "map_of other key")
       apply simp_all
    subgoal for sv ov by (cases sv; cases ov) simp_all
    done
qed

lemma narrowing_loop_skip:
  "narrowing_loop self other keys result = Inr r \<Longrightarrow>
   map_of self k = Some a \<Longrightarrow> map_of other k = Some b \<Longrightarrow> differing_tags a b \<Longrightarrow>
   map_of r k = map_of result k"
proof (induction keys arbitrary: result)
  case Nil then show ?case by simp
next
  case (Cons key keys)
  show ?case
  proof (cases "key = k")
    case True
    with Cons.prems have "narrowing_loop self other keys result = Inr r"
      by (cases a; cases b) (auto simp: differing_tags_def)
    with Cons show ?thesis by blast
  next
    case False
    from Cons.prems(1) obtain result' where
      step: "narrowing_loop self other keys result' = Inr r" and
      same: "map_of result' k = map_of result k"
      using False
      by (auto simp: update_conv' split: option.splits if_splits sum.splits)
    with Cons show ?thesis by metis
  qed
qed

text \<open>
  C10: the widening and the narrowing of two states return a state, whatever the two
  states are, and a key that both hold under differing tags is absent from the store
  of the result. (The lemmas on the two loops hold for every list of keys, hence for
  every order in which the keys are visited.)
\<close>

theorem widening_narrowing_drop_differing_tags:
  "(\<exists>r. AbstractState_widening s t = Inr r \<and>
        (\<forall>k a b. map_of (varToAbsVal s) k = Some a \<longrightarrow> map_of (varToAbsVal t) k = Some b \<longrightarrow>
                  differing_tags a b \<longrightarrow> map_of (varToAbsVal r) k = None) \<and>
        (\<forall>k a b. map_of (addrToAbsVal s) k = Some a \<longrightarrow> map_of (addrToAbsVal t) k = Some b \<longrightarrow>
                  differing_tags a b \<longrightarrow> map_of (addrToAbsVal r) k = None)) \<and>
   (\<exists>r. AbstractState_narrowing s t = Inr r \<and>
        (\<forall>k a b. map_of (varToAbsVal s) k = Some a \<longrightarrow> map_of (varToAbsVal t) k = Some b \<longrightarrow>
                  differing_tags a b \<longrightarrow> map_of (varToAbsVal r) k = None) \<and>
        (\<forall>k a b. map_of (addrToAbsVal s) k = Some a \<longrightarrow> map_of (addrToAbsVal t) k = Some b \<longrightarrow>
                  differing_tags a b \<longrightarrow> map_of (addrToAbsVal r) k = None))"
proof -
  obtain wv where wv: "widening_loop (varToAbsVal s) (varToAbsVal t)
      (all_keys (varToAbsVal s) (varToAbsVal t)) [] = Inr wv"
    using widening_loop_total [OF all_keys_subset] by blast
  obtain wa where wa: "widening_loop (addrToAbsVal s) (addrToAbsVal t)
      (all_keys (addrToAbsVal s) (addrToAbsVal t)) [] = Inr wa"
    using widening_loop_total [OF all_keys_subset] by blast
  obtain nv where nv: "narrowing_loop (varToAbsVal s) (varToAbsVal t)
      (all_keys (varToAbsVal s) (varToAbsVal t)) [] = Inr nv"
    using narrowing_loop_total [OF all_keys_subset] by blast
  obtain na where na: "narrowing_loop (addrToAbsVal s) (addrToAbsVal t)
      (all_keys (addrToAbsVal s) (addrToAbsVal t)) [] = Inr na"
    using narrowing_loop_total [OF all_keys_subset] by blast
  have w: "AbstractState_widening s t = Inr \<lparr>varToAbsVal = wv, addrToAbsVal = wa\<rparr>"
    by (simp add: AbstractState_widening_def wv wa)
  have n: "AbstractState_narrowing s t = Inr \<lparr>varToAbsVal = nv, addrToAbsVal = na\<rparr>"
    by (simp add: AbstractState_narrowing_def nv na)
  show ?thesis
    using w n widening_loop_skip [OF wv] widening_loop_skip [OF wa]
      narrowing_loop_skip [OF nv] narrowing_loop_skip [OF na]
    by simp
qed

theorem widening_narrowing_drop_differing_tags_witness:
  "map_of (varToAbsVal state_interval) 1 = Some (createInterval (Some 1) (Some 5)) \<and>
   map_of (varToAbsVal state_address) 1 = Some (createAddress (Some {1, 2})) \<and>
   differing_tags (createInterval (Some 1) (Some 5)) (createAddress (Some {1, 2})) \<and>
   (\<exists>r. AbstractState_widening state_interval state_address = Inr r \<and>
        map_of (varToAbsVal r) 1 = None) \<and>
   (\<exists>r. AbstractState_narrowing state_interval state_address = Inr r \<and>
        map_of (varToAbsVal r) 1 = None)"
proof -
  have h: "map_of (varToAbsVal state_interval) 1 = Some (createInterval (Some 1) (Some 5))"
    "map_of (varToAbsVal state_address) 1 = Some (createAddress (Some {1, 2}))"
    "differing_tags (createInterval (Some 1) (Some 5)) (createAddress (Some {1, 2}))"
    by (simp_all add: state_interval_def state_address_def differing_tags_def
        createInterval_def createAddress_def)
  with widening_narrowing_drop_differing_tags [of state_interval state_address]
  show ?thesis by blast
qed

end
